theory Spec2Isabelle
  imports Main "HOL-Library.Log_Nat" "HOL-Library.Sublist" "HOL-Library.AList"
begin

section \<open>The xAPI progress tracker (hook \<open>useXapiTracker\<close>)\<close>

text \<open>
  The hook keeps two entries of the browser's \<open>localStorage\<close>: under \<open>h5p-progress\<close> a
  mapping from activity slug to a progress record, under \<open>h5p-progress-summary\<close> a summary
  of that mapping. \<open>updateProgress\<close> folds one xAPI statement into both.

  What the embedding fixes:
  \<^item> A statement is the typed view of the fields the code reads, with the types xAPI gives
    them (IRIs are strings, \<open>score.raw\<close> and \<open>score.max\<close> are numbers, \<open>success\<close> is a
    boolean); an absent field is \<open>None\<close>.
  \<^item> JavaScript numbers are IEEE 754 doubles: the finite ones as the rational they denote
    (results rounded to the nearest double, ties to even), plus the infinities and NaN.
    The two zeros are identified; the hook never divides by a zero, and no other operation
    it uses tells them apart.
  \<^item> Strings are byte strings. The hook only looks for \<open>/\<close> and for ASCII letters, digits
    and hyphens, which no multi-byte UTF-8 sequence contains.
  \<^item> A storage entry is represented by what \<open>JSON.parse\<close> makes of its text.
  \<^item> Exceptions are values of a sum type; each \<open>try\<close>/\<open>catch\<close> of the source is a
    \<open>case\<close> on it.
\<close>

subsection \<open>JavaScript numbers\<close>

datatype jsnum = Fin rat | PInf | NInf | NaN

text \<open>Rounding to an integer, ties to the even one.\<close>

definition round_even :: "rat \<Rightarrow> int" where
  "round_even x =
     (let n = \<lfloor>x\<rfloor>; d = x - of_int n
      in if d < 1 / 2 then n else if 1 / 2 < d then n + 1 else if even n then n else n + 1)"

text \<open>The exponent \<open>e\<close> with \<open>2 powi e \<le> a < 2 powi (e + 1)\<close>, for positive \<open>a\<close>.\<close>

definition binade :: "rat \<Rightarrow> int" where
  "binade a =
     (let (p, q) = quotient_of a; e = bitlen p - bitlen q
      in if 2 powi e \<le> a then e else e - 1)"

text \<open>
  The double nearest to a rational: 53 significant bits, exponents from \<open>-1022\<close>
  (below that the spacing stays \<open>2 powi -1074\<close>), overflow to an infinity when the
  rounded value reaches \<open>2 ^ 1024\<close>.
\<close>

definition overflow_threshold :: rat where
  "overflow_threshold = 2 ^ 1024"

definition fl :: "rat \<Rightarrow> jsnum" where
  "fl x =
     (if x = 0 then Fin 0
      else let a = \<bar>x\<bar>;
               u = 2 powi (max (binade a) (- 1022) - 52);
               y = of_int (round_even (a / u)) * u
           in if overflow_threshold \<le> y then (if 0 < x then PInf else NInf)
              else Fin (sgn x * y))"

text \<open>
  Division. Every division of the hook is guarded against a zero divisor, so the sign a
  zero divisor would contribute is never observed; it is taken as positive.
\<close>

fun js_div :: "jsnum \<Rightarrow> jsnum \<Rightarrow> jsnum" where
  "js_div NaN _ = NaN"
| "js_div _ NaN = NaN"
| "js_div (Fin a) (Fin b) =
     (if b = 0 then (if a = 0 then NaN else if 0 < a then PInf else NInf) else fl (a / b))"
| "js_div (Fin a) _ = Fin 0"
| "js_div PInf (Fin b) = (if 0 \<le> b then PInf else NInf)"
| "js_div NInf (Fin b) = (if 0 \<le> b then NInf else PInf)"
| "js_div _ _ = NaN"

fun js_mul :: "jsnum \<Rightarrow> jsnum \<Rightarrow> jsnum" where
  "js_mul NaN _ = NaN"
| "js_mul _ NaN = NaN"
| "js_mul (Fin a) (Fin b) = fl (a * b)"
| "js_mul (Fin a) PInf = (if a = 0 then NaN else if 0 < a then PInf else NInf)"
| "js_mul (Fin a) NInf = (if a = 0 then NaN else if 0 < a then NInf else PInf)"
| "js_mul PInf (Fin b) = (if b = 0 then NaN else if 0 < b then PInf else NInf)"
| "js_mul NInf (Fin b) = (if b = 0 then NaN else if 0 < b then NInf else PInf)"
| "js_mul PInf PInf = PInf"
| "js_mul PInf NInf = NInf"
| "js_mul NInf PInf = NInf"
| "js_mul NInf NInf = PInf"

fun js_add :: "jsnum \<Rightarrow> jsnum \<Rightarrow> jsnum" where
  "js_add NaN _ = NaN"
| "js_add _ NaN = NaN"
| "js_add (Fin a) (Fin b) = fl (a + b)"
| "js_add (Fin a) y = y"
| "js_add x (Fin b) = x"
| "js_add PInf PInf = PInf"
| "js_add NInf NInf = NInf"
| "js_add _ _ = NaN"

text \<open>The comparison \<open>x > y\<close>: false as soon as one side is NaN.\<close>

fun js_gt :: "jsnum \<Rightarrow> jsnum \<Rightarrow> bool" where
  "js_gt NaN _ = False"
| "js_gt _ NaN = False"
| "js_gt (Fin a) (Fin b) = (b < a)"
| "js_gt PInf y = (y \<noteq> PInf)"
| "js_gt x NInf = (x \<noteq> NInf)"
| "js_gt _ _ = False"

text \<open>\<open>Math.round\<close>: the nearest integer, a tie going towards \<open>+\<infinity>\<close>.\<close>

fun Math_round :: "jsnum \<Rightarrow> jsnum" where
  "Math_round (Fin a) = Fin (of_int \<lfloor>a + 1 / 2\<rfloor>)"
| "Math_round x = x"

text \<open>A number is falsy when it is a zero or NaN.\<close>

definition truthy_number :: "jsnum \<Rightarrow> bool" where
  "truthy_number x = (x \<noteq> Fin 0 \<and> x \<noteq> NaN)"

text \<open>
  A numeric member of a parsed JSON object: a number, or \<open>null\<close> (which is what
  \<open>JSON.stringify\<close> writes for an infinity or NaN).
\<close>

datatype jsval = Null | Number jsnum

fun ToNumber :: "jsval \<Rightarrow> jsnum" where
  "ToNumber Null = Fin 0"
| "ToNumber (Number x) = x"

text \<open>The postfix increment \<open>x++\<close> stores \<open>ToNumber x + 1\<close>.\<close>

definition increment :: "jsval \<Rightarrow> jsval" where
  "increment x = Number (js_add (ToNumber x) (Fin 1))"

text \<open>\<open>JSON.parse (JSON.stringify x)\<close> for such a member.\<close>

fun JSON_number :: "jsval \<Rightarrow> jsval" where
  "JSON_number (Number (Fin a)) = Number (Fin a)"
| "JSON_number _ = Null"

subsection \<open>Statements\<close>

record xapi_score =
  score_raw :: "jsnum option"
  score_max :: "jsnum option"

record xapi_result =
  score :: "xapi_score option"
  success :: "bool option"

text \<open>
  \<open>verb_id\<close> is \<open>statement.verb?.id\<close>, \<open>object_id\<close> is \<open>statement.object?.id\<close>, and the two
  extension fields are \<open>statement.context?.extensions?.contentId\<close> and
  \<open>statement.context?.extensions?.['http://id.tincanapi.com/extension/content-id']\<close>.
\<close>

record statement =
  verb_id :: "string option"
  result :: "xapi_result option"
  ext_contentId :: "string option"
  ext_content_id :: "string option"
  object_id :: "string option"

text \<open>A string is falsy when it is absent or empty.\<close>

fun truthy_string :: "string option \<Rightarrow> bool" where
  "truthy_string None = False"
| "truthy_string (Some s) = (s \<noteq> [])"

definition endsWith :: "string \<Rightarrow> string \<Rightarrow> bool" where
  "endsWith s t = suffix t s"

subsection \<open>extractActivitySlug\<close>

text \<open>
  \<open>String.prototype.match\<close> with a regular expression that has no \<open>g\<close> flag returns the
  leftmost match: the start positions are tried from left to right. \<open>regex_search\<close> does
  that for a matcher anchored at the start of its argument, which returns capture group 1.
\<close>

fun regex_search :: "(string \<Rightarrow> string option) \<Rightarrow> string \<Rightarrow> string option" where
  "regex_search m [] = m []"
| "regex_search m (c # cs) = (case m (c # cs) of Some g \<Rightarrow> Some g | None \<Rightarrow> regex_search m cs)"

definition not_slash :: "char \<Rightarrow> bool" where
  "not_slash c = (c \<noteq> CHR ''/'')"

text \<open>\<open>\/([^/]+)$\<close> anchored: a slash, then at least one character, none a slash, up to the end.\<close>

fun slash_segment_end :: "string \<Rightarrow> string option" where
  "slash_segment_end [] = None"
| "slash_segment_end (c # r) =
     (if c = CHR ''/'' \<and> r \<noteq> [] \<and> list_all not_slash r then Some r else None)"

text \<open>
  \<open>\/([^/]+)(?:\/[^/]*)?$\<close> anchored: a slash, a non-empty segment (greedy, so up to the
  next slash), then either the end or one more slash followed by slash-free text up to the
  end. A shorter segment cannot help: what follows it would be neither a slash nor the end.
\<close>

fun slash_segment_tail_end :: "string \<Rightarrow> string option" where
  "slash_segment_tail_end [] = None"
| "slash_segment_tail_end (c # r) =
     (let seg = takeWhile not_slash r; rest = dropWhile not_slash r
      in if c = CHR ''/'' \<and> seg \<noteq> [] \<and> (rest = [] \<or> list_all not_slash (tl rest))
         then Some seg else None)"

text \<open>\<open>([a-z0-9-]+)$\<close> with flag \<open>i\<close>, anchored: a non-empty run of such characters up to the end.\<close>

definition alnum_hyphen :: "char \<Rightarrow> bool" where
  "alnum_hyphen c =
     (c \<in> set ''abcdefghijklmnopqrstuvwxyzABCDEFGHIJKLMNOPQRSTUVWXYZ0123456789-'')"

definition alnum_hyphen_end :: "string \<Rightarrow> string option" where
  "alnum_hyphen_end s = (if s \<noteq> [] \<and> list_all alnum_hyphen s then Some s else None)"

text \<open>
  On the typed statement nothing in the body throws, so the \<open>catch\<close> of the source (which
  also returns \<open>'unknown-activity'\<close>) has no case here.
\<close>

definition extractActivitySlug :: "statement \<Rightarrow> string" where
  "extractActivitySlug statement =
     (let contentId = (if truthy_string (ext_contentId statement) then ext_contentId statement
                       else ext_content_id statement);
          match = (case contentId of
                     None \<Rightarrow> None
                   | Some c \<Rightarrow> if c = [] then None else regex_search slash_segment_end c)
      in case match of
           Some m \<Rightarrow> m
         | None \<Rightarrow>
             (case object_id statement of
                None \<Rightarrow> ''unknown-activity''
              | Some objectId \<Rightarrow>
                  if objectId = [] then ''unknown-activity''
                  else (case regex_search slash_segment_tail_end objectId of
                          Some urlMatch \<Rightarrow> urlMatch
                        | None \<Rightarrow>
                            (case regex_search alnum_hyphen_end objectId of
                               Some simpleMatch \<Rightarrow> simpleMatch
                             | None \<Rightarrow> ''unknown-activity''))))"

subsection \<open>calculateCompletionPercentage\<close>

definition calculateCompletionPercentage :: "xapi_result option \<Rightarrow> jsnum" where
  "calculateCompletionPercentage res =
     (case res of
        None \<Rightarrow> Fin 0
      | Some r \<Rightarrow>
          (case score r of
             None \<Rightarrow> Fin 0
           | Some sc \<Rightarrow>
               (let raw = (case score_raw sc of None \<Rightarrow> Fin 0 | Some x \<Rightarrow> x);
                    mx = (case score_max sc of None \<Rightarrow> Fin 1 | Some x \<Rightarrow> x)
                in if mx = Fin 0 then Fin 0
                   else Math_round (js_mul (js_div raw mx) (Fin 100)))))"

subsection \<open>The key-value store\<close>

datatype js_error = TypeError | SyntaxError | SecurityError | QuotaExceededError

text \<open>
  What \<open>localStorage.getItem\<close> finds under a key, told apart by what the hook does with
  it: no entry (\<open>null\<close>), the empty string, a text that \<open>JSON.parse\<close> rejects, or a text
  that parses to a value.
\<close>

datatype 'a item = Missing | EmptyText | Malformed | JsonText 'a

text \<open>
  The inherited member a property read finds when the object has no own property of that
  name. A plain object inherits from \<open>Object.prototype\<close>; its members are functions and
  objects unless a script has added others.
\<close>

datatype inherited = NotInherited | InheritedPrimitive | InheritedObject

text \<open>
  The environment of one call: the clock readings of \<open>new Date().toISOString()\<close>, what the
  parsed progress value inherits under a name (\<open>InheritedPrimitive\<close> standing for a truthy
  primitive, a falsy one being as good as absent to the hook), whether access to
  \<open>localStorage\<close> is denied (then every call on it throws), and for which keys \<open>setItem\<close>
  exceeds the quota.
\<close>

record env =
  date_created :: string
  date_activity :: string
  date_summary :: string
  proto :: "string \<Rightarrow> inherited"
  storage_denied :: bool
  quota_exceeded :: "string \<Rightarrow> bool"

definition PROGRESS_KEY :: string where
  "PROGRESS_KEY = ''h5p-progress''"

definition PROGRESS_SUMMARY_KEY :: string where
  "PROGRESS_SUMMARY_KEY = ''h5p-progress-summary''"

definition localStorage_getItem :: "env \<Rightarrow> 'a item \<Rightarrow> js_error + 'a item" where
  "localStorage_getItem e entry = (if storage_denied e then Inl SecurityError else Inr entry)"

fun JSON_parse :: "'a item \<Rightarrow> js_error + 'a" where
  "JSON_parse (JsonText v) = Inr v"
| "JSON_parse _ = Inl SyntaxError"

text \<open>
  The \<open>try\<close> block of \<open>safeParseJSON\<close>, applied to the entry under its key:
  \<open>stored ? JSON.parse(stored) : fallback\<close>.
\<close>

definition safeParseJSON_try :: "env \<Rightarrow> 'a item \<Rightarrow> 'a \<Rightarrow> js_error + 'a" where
  "safeParseJSON_try e entry fallback =
     (case localStorage_getItem e entry of
        Inl err \<Rightarrow> Inl err
      | Inr stored \<Rightarrow>
          (case stored of
             Missing \<Rightarrow> Inr fallback
           | EmptyText \<Rightarrow> Inr fallback
           | _ \<Rightarrow> JSON_parse stored))"

definition safeParseJSON :: "env \<Rightarrow> 'a item \<Rightarrow> 'a \<Rightarrow> 'a" where
  "safeParseJSON e entry fallback =
     (case safeParseJSON_try e entry fallback of Inl err \<Rightarrow> fallback | Inr v \<Rightarrow> v)"

text \<open>
  \<open>safeStoreJSON\<close>: the success flag and the entry under the key afterwards. \<open>json\<close> is
  \<open>JSON.parse \<circ> JSON.stringify\<close> on the type of the data.
\<close>

definition localStorage_setItem :: "env \<Rightarrow> string \<Rightarrow> 'a item \<Rightarrow> js_error + 'a item" where
  "localStorage_setItem e key entry =
     (if storage_denied e then Inl SecurityError
      else if quota_exceeded e key then Inl QuotaExceededError
      else Inr entry)"

definition safeStoreJSON :: "env \<Rightarrow> string \<Rightarrow> ('a \<Rightarrow> 'a) \<Rightarrow> 'a \<Rightarrow> 'a item \<Rightarrow> bool \<times> 'a item" where
  "safeStoreJSON e key json data entry =
     (case localStorage_setItem e key (JsonText (json data)) of
        Inl err \<Rightarrow> (False, entry)
      | Inr entry' \<Rightarrow> (True, entry'))"

subsection \<open>Progress records and the summary\<close>

record activity_progress =
  slug :: string
  questionsAnswered :: jsval
  questionsCompleted :: jsval
  lastScore :: jsval
  lastSuccess :: bool
  completionPercentage :: jsval
  isCompleted :: bool
  lastActivity :: string

text \<open>
  The parsed value under the progress key: an object whose members are progress records,
  in the order JavaScript enumerates own properties, or \<open>null\<close>, a number or a boolean.
  (Strings, arrays and objects of other shapes are not represented.)
\<close>

datatype progress_doc =
  Mapping "(string \<times> activity_progress) list"
| JNull
| JNumber jsnum
| JBoolean bool

record progress_summary =
  totalActivities :: jsval
  completedActivities :: jsval
  completionRate :: jsval
  averageScorePercent :: jsval
  lastUpdated :: "string option"

record storage =
  progress_text :: "progress_doc item"
  summary_text :: "progress_summary item"

text \<open>\<open>JSON.parse \<circ> JSON.stringify\<close> on the values the hook stores.\<close>

definition JSON_activity :: "activity_progress \<Rightarrow> activity_progress" where
  "JSON_activity a =
     a\<lparr>questionsAnswered := JSON_number (questionsAnswered a),
       questionsCompleted := JSON_number (questionsCompleted a),
       lastScore := JSON_number (lastScore a),
       completionPercentage := JSON_number (completionPercentage a)\<rparr>"

fun JSON_progress :: "progress_doc \<Rightarrow> progress_doc" where
  "JSON_progress (Mapping m) = Mapping (map (\<lambda>(k, a). (k, JSON_activity a)) m)"
| "JSON_progress (JNumber (Fin a)) = JNumber (Fin a)"
| "JSON_progress (JNumber _) = JNull"
| "JSON_progress d = d"

definition JSON_summary :: "progress_summary \<Rightarrow> progress_summary" where
  "JSON_summary s =
     s\<lparr>totalActivities := JSON_number (totalActivities s),
       completedActivities := JSON_number (completedActivities s),
       completionRate := JSON_number (completionRate s),
       averageScorePercent := JSON_number (averageScorePercent s)\<rparr>"

text \<open>
  Own properties are enumerated with the array indices first, in ascending order, then the
  other names in the order they were added. An array index is the canonical decimal text
  of an integer below \<open>2^32 - 1\<close>.
\<close>

definition decimal :: "string \<Rightarrow> nat" where
  "decimal k = foldl (\<lambda>n c. 10 * n + (of_char c - 48)) 0 k"

definition is_array_index :: "string \<Rightarrow> bool" where
  "is_array_index k =
     (k \<noteq> [] \<and> list_all (\<lambda>c. c \<in> set ''0123456789'') k
      \<and> (k = ''0'' \<or> hd k \<noteq> CHR ''0'') \<and> decimal k < 2 ^ 32 - 1)"

definition sorts_before :: "string \<Rightarrow> string \<times> 'v \<Rightarrow> bool" where
  "sorts_before k p = (is_array_index (fst p) \<and> decimal (fst p) < decimal k)"

text \<open>
  \<open>obj[k] = v\<close> on an object with own properties \<open>m\<close>: an existing property keeps its
  place, a new one goes to the place the enumeration order gives it.
\<close>

definition own_put :: "(string \<times> 'v) list \<Rightarrow> string \<Rightarrow> 'v \<Rightarrow> (string \<times> 'v) list" where
  "own_put m k v =
     (if map_of m k \<noteq> None then AList.update k v m
      else if is_array_index k
      then takeWhile (sorts_before k) m @ (k, v) # dropWhile (sorts_before k) m
      else m @ [(k, v)])"

text \<open>
  \<open>Object.values\<close>: the own members of an object, none for a number or a boolean, a
  \<open>TypeError\<close> for \<open>null\<close>.
\<close>

fun Object_values :: "progress_doc \<Rightarrow> js_error + activity_progress list" where
  "Object_values (Mapping m) = Inr (map snd m)"
| "Object_values JNull = Inl TypeError"
| "Object_values _ = Inr []"

definition js_length :: "'a list \<Rightarrow> jsnum" where
  "js_length xs = Fin (of_nat (length xs))"

text \<open>The \<open>summary\<close> object that \<open>updateProgressSummary\<close> builds from the activities.\<close>

definition summarise :: "env \<Rightarrow> activity_progress list \<Rightarrow> progress_summary" where
  "summarise e activities =
     (let total = js_length activities;
          completed = js_length (filter isCompleted activities);
          rate = (if js_gt total (Fin 0)
                  then Math_round (js_mul (js_div completed total) (Fin 100)) else Fin 0);
          completedWithScores =
            filter (\<lambda>a. isCompleted a \<and> js_gt (ToNumber (completionPercentage a)) (Fin 0))
              activities;
          average = (if js_gt (js_length completedWithScores) (Fin 0)
                     then Math_round
                            (js_div (foldl (\<lambda>sum a. js_add sum (ToNumber (completionPercentage a)))
                                       (Fin 0) completedWithScores)
                               (js_length completedWithScores))
                     else Fin 0)
      in \<lparr>totalActivities = Number total,
          completedActivities = Number completed,
          completionRate = Number rate,
          averageScorePercent = Number average,
          lastUpdated = Some (date_summary e)\<rparr>)"

text \<open>An exception of the \<open>try\<close> block is caught and logged; the store is then as it was.\<close>

definition updateProgressSummary :: "env \<Rightarrow> storage \<Rightarrow> progress_doc \<Rightarrow> storage" where
  "updateProgressSummary e st progressData =
     (case Object_values progressData of
        Inl err \<Rightarrow> st
      | Inr activities \<Rightarrow>
          st\<lparr>summary_text :=
               snd (safeStoreJSON e PROGRESS_SUMMARY_KEY JSON_summary (summarise e activities)
                      (summary_text st))\<rparr>)"

subsection \<open>updateProgress\<close>

text \<open>What \<open>currentProgress[slug]\<close> evaluates to.\<close>

datatype member = Own activity_progress | Inherited inherited

fun get_member :: "env \<Rightarrow> progress_doc \<Rightarrow> string \<Rightarrow> js_error + member" where
  "get_member e (Mapping m) s =
     (case map_of m s of Some a \<Rightarrow> Inr (Own a) | None \<Rightarrow> Inr (Inherited (proto e s)))"
| "get_member e JNull s = Inl TypeError"
| "get_member e _ s = Inr (Inherited (proto e s))"

text \<open>
  \<open>currentProgress[slug] = value\<close>. The hook is module code, hence strict: creating a
  property on a number or a boolean throws.
\<close>

fun set_member :: "progress_doc \<Rightarrow> string \<Rightarrow> activity_progress \<Rightarrow> js_error + progress_doc" where
  "set_member (Mapping m) s a = Inr (Mapping (own_put m s a))"
| "set_member _ s a = Inl TypeError"

definition initial_progress :: "env \<Rightarrow> string \<Rightarrow> activity_progress" where
  "initial_progress e s =
     \<lparr>slug = s,
      questionsAnswered = Number (Fin 0),
      questionsCompleted = Number (Fin 0),
      lastScore = Number (Fin 0),
      lastSuccess = False,
      completionPercentage = Number (Fin 0),
      isCompleted = False,
      lastActivity = date_created e\<rparr>"

text \<open>\<open>if (!currentProgress[slug]) currentProgress[slug] = {...}\<close>\<close>

definition initialise_missing :: "env \<Rightarrow> progress_doc \<Rightarrow> string \<Rightarrow> js_error + progress_doc" where
  "initialise_missing e currentProgress s =
     (case get_member e currentProgress s of
        Inl err \<Rightarrow> Inl err
      | Inr (Inherited NotInherited) \<Rightarrow> set_member currentProgress s (initial_progress e s)
      | Inr _ \<Rightarrow> Inr currentProgress)"

text \<open>
  \<open>result.score?.raw || 0\<close>, \<open>result.success || false\<close> and the percentage, written into
  the record when the statement has a result.
\<close>

definition raw_or_zero :: "xapi_result \<Rightarrow> jsnum" where
  "raw_or_zero r =
     (case score r of
        None \<Rightarrow> Fin 0
      | Some sc \<Rightarrow>
          (case score_raw sc of
             None \<Rightarrow> Fin 0
           | Some x \<Rightarrow> if truthy_number x then x else Fin 0))"

definition record_result :: "xapi_result option \<Rightarrow> activity_progress \<Rightarrow> activity_progress" where
  "record_result res a =
     (case res of
        None \<Rightarrow> a
      | Some r \<Rightarrow>
          a\<lparr>lastScore := Number (raw_or_zero r),
            lastSuccess := (case success r of None \<Rightarrow> False | Some b \<Rightarrow> b),
            completionPercentage := Number (calculateCompletionPercentage (Some r))\<rparr>)"

text \<open>The statements that mutate \<open>activityProgress\<close>, on a progress record.\<close>

definition update_activity ::
  "env \<Rightarrow> string \<Rightarrow> xapi_result option \<Rightarrow> activity_progress \<Rightarrow> activity_progress" where
  "update_activity e verb res a =
     (let a1 = (if endsWith verb ''/answered''
                then record_result res (a\<lparr>questionsAnswered := increment (questionsAnswered a)\<rparr>)
                else a);
          a2 = (if endsWith verb ''/completed''
                then record_result res
                       (a1\<lparr>questionsCompleted := increment (questionsCompleted a1),
                           isCompleted := True\<rparr>)
                else a1)
      in a2\<lparr>lastActivity := date_activity e\<rparr>)"

text \<open>
  The same statements where \<open>activityProgress\<close> is what the lookup found. An own record is
  mutated in place. An inherited object or function is mutated too, but it is no part of
  \<open>currentProgress\<close>. On a primitive the first increment throws (strict code). The lookup
  cannot come out empty after the initialisation; the read on \<open>undefined\<close> would throw.
\<close>

definition mutate_member ::
  "env \<Rightarrow> string \<Rightarrow> xapi_result option \<Rightarrow> progress_doc \<Rightarrow> string \<Rightarrow> js_error + progress_doc" where
  "mutate_member e verb res currentProgress s =
     (case get_member e currentProgress s of
        Inl err \<Rightarrow> Inl err
      | Inr (Own a) \<Rightarrow> set_member currentProgress s (update_activity e verb res a)
      | Inr (Inherited InheritedObject) \<Rightarrow> Inr currentProgress
      | Inr (Inherited _) \<Rightarrow> Inl TypeError)"

text \<open>
  The \<open>try\<close> block of \<open>updateProgress\<close>. Whatever throws does so before the first write, so
  an exception carries no store.
\<close>

definition updateProgress_try :: "env \<Rightarrow> storage \<Rightarrow> statement \<Rightarrow> js_error + storage" where
  "updateProgress_try e st statement =
     (let s = extractActivitySlug statement;
          res = result statement
      in case verb_id statement of
           None \<Rightarrow> Inr st
         | Some verb \<Rightarrow>
             if verb = [] \<or> (\<not> endsWith verb ''/answered'' \<and> \<not> endsWith verb ''/completed'')
             then Inr st
             else
               (let currentProgress = safeParseJSON e (progress_text st) (Mapping [])
                in case initialise_missing e currentProgress s of
                     Inl err \<Rightarrow> Inl err
                   | Inr initialised \<Rightarrow>
                       (case mutate_member e verb res initialised s of
                          Inl err \<Rightarrow> Inl err
                        | Inr updated \<Rightarrow>
                            Inr (updateProgressSummary e
                                   (st\<lparr>progress_text :=
                                         snd (safeStoreJSON e PROGRESS_KEY JSON_progress updated
                                                (progress_text st))\<rparr>)
                                   updated))))"

definition updateProgress :: "env \<Rightarrow> storage \<Rightarrow> statement \<Rightarrow> storage" where
  "updateProgress e st statement =
     (case updateProgress_try e st statement of Inl err \<Rightarrow> st | Inr st' \<Rightarrow> st')"

subsection \<open>Accessors\<close>

definition getProgress :: "env \<Rightarrow> storage \<Rightarrow> progress_doc" where
  "getProgress e st = safeParseJSON e (progress_text st) (Mapping [])"

definition default_summary :: progress_summary where
  "default_summary =
     \<lparr>totalActivities = Number (Fin 0),
      completedActivities = Number (Fin 0),
      completionRate = Number (Fin 0),
      averageScorePercent = Number (Fin 0),
      lastUpdated = None\<rparr>"

definition getProgressSummary :: "env \<Rightarrow> storage \<Rightarrow> progress_summary" where
  "getProgressSummary e st = safeParseJSON e (summary_text st) default_summary"

subsection \<open>Notions for the statements below\<close>

text \<open>The record bound to a slug in a parsed progress value, and in the store.\<close>

fun doc_record :: "progress_doc \<Rightarrow> string \<Rightarrow> activity_progress option" where
  "doc_record (Mapping m) s = map_of m s"
| "doc_record _ s = None"

fun item_record :: "progress_doc item \<Rightarrow> string \<Rightarrow> activity_progress option" where
  "item_record (JsonText d) s = doc_record d s"
| "item_record _ s = None"

definition stored_record :: "storage \<Rightarrow> string \<Rightarrow> activity_progress option" where
  "stored_record st s = item_record (progress_text st) s"

text \<open>
  The record \<open>updateProgress\<close> starts from: the one it reads for the slug, or the fresh
  one it creates.
\<close>

definition previous_record :: "env \<Rightarrow> storage \<Rightarrow> string \<Rightarrow> activity_progress" where
  "previous_record e st s =
     (case doc_record (getProgress e st) s of Some a \<Rightarrow> a | None \<Rightarrow> initial_progress e s)"

text \<open>
  The conditions under which a qualifying statement for slug \<open>s\<close> reaches the stored
  mapping: the store can be read and the progress key written, what is read is a mapping
  (the fallback included), and the slug either has a record or names nothing the mapping
  inherits.
\<close>

fun reaches_record :: "env \<Rightarrow> progress_doc \<Rightarrow> string \<Rightarrow> bool" where
  "reaches_record e (Mapping m) s = (map_of m s \<noteq> None \<or> proto e s = NotInherited)"
| "reaches_record e _ s = False"

definition persists :: "env \<Rightarrow> storage \<Rightarrow> string \<Rightarrow> bool" where
  "persists e st s =
     (\<not> storage_denied e \<and> \<not> quota_exceeded e PROGRESS_KEY
      \<and> reaches_record e (getProgress e st) s)"

text \<open>A run of calls, each in its own environment.\<close>

fun updates :: "storage \<Rightarrow> (env \<times> statement) list \<Rightarrow> storage" where
  "updates st [] = st"
| "updates st ((e, statement) # rest) = updates (updateProgress e st statement) rest"

text \<open>
  The stored numbers are ones \<open>JSON.stringify\<close> writes back as they are: finite, or
  \<open>null\<close>. This is so for everything the hook writes. It is not so for every text: the
  number \<open>1e999\<close> parses to \<open>Infinity\<close>, which is written back as \<open>null\<close>.
\<close>

fun json_clean :: "progress_doc item \<Rightarrow> bool" where
  "json_clean (JsonText d) = (JSON_progress d = d)"
| "json_clean _ = True"

text \<open>
  The in-memory value of \<open>currentProgress\<close> after the initialisation and the mutation.
\<close>

definition step_doc ::
  "env \<Rightarrow> string \<Rightarrow> xapi_result option \<Rightarrow> progress_doc \<Rightarrow> string \<Rightarrow> js_error + progress_doc" where
  "step_doc e verb res currentProgress s =
     (case initialise_missing e currentProgress s of
        Inl err \<Rightarrow> Inl err
      | Inr initialised \<Rightarrow> mutate_member e verb res initialised s)"

text \<open>
  A browser with nothing unusual: plain objects inherit the members of
  \<open>Object.prototype\<close>, the store is accessible and has room.
\<close>

definition Object_prototype :: "string \<Rightarrow> inherited" where
  "Object_prototype k =
     (if k \<in> set [''constructor'', ''__proto__'', ''hasOwnProperty'', ''isPrototypeOf'',
                  ''propertyIsEnumerable'', ''toLocaleString'', ''toString'', ''valueOf'',
                  ''__defineGetter__'', ''__defineSetter__'', ''__lookupGetter__'',
                  ''__lookupSetter__'']
      then InheritedObject else NotInherited)"

definition browser :: env where
  "browser =
     \<lparr>date_created = ''2025-01-01T10:00:00.000Z'',
      date_activity = ''2025-01-01T10:00:00.000Z'',
      date_summary = ''2025-01-01T10:00:00.001Z'',
      proto = Object_prototype,
      storage_denied = False,
      quota_exceeded = (\<lambda>key. False)\<rparr>"

definition empty_storage :: storage where
  "empty_storage = \<lparr>progress_text = Missing, summary_text = Missing\<rparr>"

text \<open>A statement with a verb, an object identifier and possibly a score.\<close>

definition scored :: "rat \<Rightarrow> rat \<Rightarrow> xapi_result" where
  "scored r m =
     \<lparr>score = Some \<lparr>score_raw = Some (Fin r), score_max = Some (Fin m)\<rparr>, success = None\<rparr>"

definition about :: "string \<Rightarrow> string \<Rightarrow> xapi_result option \<Rightarrow> statement" where
  "about verb objectId res =
     \<lparr>verb_id = Some verb, result = res, ext_contentId = None, ext_content_id = None,
      object_id = Some objectId\<rparr>"

definition completed :: string where
  "completed = ''http://adlnet.gov/expapi/verbs/completed''"

definition answered :: string where
  "answered = ''http://adlnet.gov/expapi/verbs/answered''"

text \<open>
  The average as the specification words it: the mean of the percentages, rounded. The
  percentages it ranges over are those of the completed activities whose percentage is
  greater than zero (\<open>positive_percentages\<close>, what the code filters) or, in the
  wording of claim C3, merely different from zero (\<open>nonzero_percentages\<close>).
\<close>

definition rounded_mean :: "jsnum list \<Rightarrow> jsnum" where
  "rounded_mean xs = Math_round (js_div (foldl js_add (Fin 0) xs) (js_length xs))"

definition positive_percentages :: "activity_progress list \<Rightarrow> jsnum list" where
  "positive_percentages activities =
     map (\<lambda>a. ToNumber (completionPercentage a))
       (filter (\<lambda>a. isCompleted a \<and> js_gt (ToNumber (completionPercentage a)) (Fin 0)) activities)"

definition nonzero_percentages :: "activity_progress list \<Rightarrow> jsnum list" where
  "nonzero_percentages activities =
     map (\<lambda>a. ToNumber (completionPercentage a))
       (filter (\<lambda>a. isCompleted a \<and> completionPercentage a \<noteq> Number (Fin 0)) activities)"

text \<open>
  For runs of calls: a statement qualifies when its verb ends in \<open>/answered\<close> or
  \<open>/completed\<close>; \<open>latest_percentage\<close> is the percentage of the most recent qualifying
  statement for a slug that carried a result (0 when the slug has only had statements
  without one, nothing when it has had none); a call works when the store is accessible,
  takes the progress entry, and the slug names nothing inherited; an entry holds a mapping
  when what is read from it is one.
\<close>

definition qualifies :: "statement \<Rightarrow> bool" where
  "qualifies statement =
     (case verb_id statement of
        None \<Rightarrow> False
      | Some verb \<Rightarrow> endsWith verb ''/answered'' \<or> endsWith verb ''/completed'')"

fun latest_percentage :: "string \<Rightarrow> jsval option \<Rightarrow> statement list \<Rightarrow> jsval option" where
  "latest_percentage s p [] = p"
| "latest_percentage s p (statement # rest) =
     latest_percentage s
       (if qualifies statement \<and> extractActivitySlug statement = s
        then (case result statement of
                Some r \<Rightarrow> Some (JSON_number (Number (calculateCompletionPercentage (Some r))))
              | None \<Rightarrow> Some (case p of None \<Rightarrow> Number (Fin 0) | Some x \<Rightarrow> x))
        else p)
       rest"

definition call_works :: "env \<times> statement \<Rightarrow> bool" where
  "call_works c =
     (\<not> storage_denied (fst c) \<and> \<not> quota_exceeded (fst c) PROGRESS_KEY
      \<and> proto (fst c) (extractActivitySlug (snd c)) = NotInherited)"

fun holds_mapping :: "progress_doc item \<Rightarrow> bool" where
  "holds_mapping (JsonText (Mapping m)) = True"
| "holds_mapping (JsonText _) = False"
| "holds_mapping _ = True"

text \<open>Further environments, stores and records for the instances below.\<close>

definition full_store :: env where
  "full_store = browser\<lparr>quota_exceeded := (\<lambda>key. True)\<rparr>"

definition null_storage :: storage where
  "null_storage = \<lparr>progress_text = JsonText JNull, summary_text = Missing\<rparr>"

definition lost_quiz :: activity_progress where
  "lost_quiz =
     \<lparr>slug = ''quiz'', questionsAnswered = Number (Fin 0), questionsCompleted = Number (Fin 1),
      lastScore = Number (Fin (- 5)), lastSuccess = False,
      completionPercentage = Number (Fin (- 50)), isCompleted = True,
      lastActivity = ''2025-01-01T10:00:00.000Z''\<rparr>"

definition passed_quiz :: activity_progress where
  "passed_quiz =
     \<lparr>slug = ''quiz'', questionsAnswered = Number (Fin 3), questionsCompleted = Number (Fin 1),
      lastScore = Number (Fin 8), lastSuccess = True,
      completionPercentage = Number (Fin 80), isCompleted = True,
      lastActivity = ''2025-01-01T09:00:00.000Z''\<rparr>"

definition one_quiz :: storage where
  "one_quiz = \<lparr>progress_text = JsonText (Mapping [(''quiz'', passed_quiz)]), summary_text = Missing\<rparr>"

text \<open>
  A store whose progress text has the number \<open>1e999\<close> as the percentage of a poll, which
  \<open>JSON.parse\<close> reads as \<open>Infinity\<close>.
\<close>

definition overflowed_poll :: activity_progress where
  "overflowed_poll =
     \<lparr>slug = ''poll'', questionsAnswered = Number (Fin 1), questionsCompleted = Number (Fin 0),
      lastScore = Number (Fin 0), lastSuccess = False,
      completionPercentage = Number PInf, isCompleted = False,
      lastActivity = ''2025-01-01T09:00:00.000Z''\<rparr>"

definition overflowed_store :: storage where
  "overflowed_store =
     \<lparr>progress_text = JsonText (Mapping [(''poll'', overflowed_poll)]), summary_text = Missing\<rparr>"

section \<open>Properties\<close>

subsection \<open>Numbers\<close>

text \<open>The threshold written out, which is the form evaluation uses.\<close>

lemma overflow_threshold_code [code]:
  "overflow_threshold = 179769313486231590772930519078902473361797697894230657273430081157732675805500963132708477322407536021120113879871393357658789768814416622492847430639474124377767893424865485276302219601246094119453082952085005768838150682342462881473913110540827237163350510684586298239947245938479716304835356329624224137216"
  by (simp add: overflow_threshold_def)

lemma round_even_of_int [simp]: "round_even (of_int k) = k"
  by (simp add: round_even_def)

lemma binade_of_nat:
  assumes "0 < n"
  shows "binade (of_nat n) = bitlen (int n) - 1"
proof -
  have q: "quotient_of (of_nat n) = (int n, 1)"
    using quotient_of_int[of "int n"] by simp
  have b: "2 ^ nat (bitlen (int n) - 1) \<le> int n"
    using bitlen_bounds[of "int n"] assms by simp
  have pos: "0 \<le> bitlen (int n) - 1"
    using assms bitlen_nonneg[of "int n"] bitlen_eq_zero_iff[of "int n"] by (smt (verit) of_nat_0_less_iff)
  have "(2::rat) powi (bitlen (int n) - 1) = 2 ^ nat (bitlen (int n) - 1)"
    using pos by (simp add: power_int_def)
  also have "\<dots> = of_int (2 ^ nat (bitlen (int n) - 1))" by simp
  also have "\<dots> \<le> of_int (int n)" using b by (simp only: of_int_le_iff)
  finally have "(2::rat) powi (bitlen (int n) - 1) \<le> of_nat n" by simp
  moreover have "bitlen 1 = 1" by code_simp
  ultimately show ?thesis
    by (simp add: binade_def q Let_def)
qed

lemma fl_of_nat:
  assumes "n < 2 ^ 53"
  shows "fl (of_nat n) = Fin (of_nat n)"
proof (cases "n = 0")
  case True
  then show ?thesis by (simp add: fl_def)
next
  case False
  then have n: "0 < n" by simp
  define e where "e = bitlen (int n) - 1"
  have e0: "0 \<le> e"
    unfolding e_def using n bitlen_nonneg[of "int n"] bitlen_eq_zero_iff[of "int n"] by (smt (verit) of_nat_0_less_iff)
  have "int n < 2 ^ 53" using assms by (metis of_nat_less_iff of_nat_numeral of_nat_power)
  then have "bitlen (int n) \<le> 53"
    using bitlen_le_iff_power[of "int n" 53] by simp
  then have e52: "e \<le> 52" by (simp add: e_def)
  define k where "k = nat (52 - e)"
  have u: "(2::rat) powi (max e (- 1022) - 52) = 1 / 2 ^ k"
    using e0 e52 by (simp add: power_int_def k_def max_def field_simps)
  have "(of_nat n :: rat) * 2 ^ k = of_int (int n * 2 ^ k)" by simp
  then have r: "round_even ((of_nat n :: rat) * 2 ^ k) = int n * 2 ^ k"
    by (simp only: round_even_of_int)
  have big: "\<not> overflow_threshold \<le> of_nat n"
  proof -
    have "(of_nat n :: rat) < 2 ^ 53" using assms by (metis of_nat_less_iff of_nat_numeral of_nat_power)
    also have "\<dots> \<le> 2 ^ 1024" by (rule power_increasing) simp_all
    finally show ?thesis by (simp add: overflow_threshold_def)
  qed
  have b: "binade (of_nat n) = e"
    using n by (simp add: binade_of_nat e_def)
  have a: "\<bar>of_nat n :: rat\<bar> = of_nat n" by simp
  have y: "of_int (round_even ((of_nat n :: rat) / (1 / 2 ^ k))) * (1 / 2 ^ k) = (of_nat n :: rat)"
    using r by simp
  have nz: "(of_nat n :: rat) \<noteq> 0" using n by simp
  have s: "sgn (of_nat n :: rat) = 1" using n by simp
  show ?thesis
    unfolding fl_def Let_def a b u y using nz big s by simp
qed

lemma increment_exact:
  assumes "n + 1 < 2 ^ 53"
  shows "increment (Number (Fin (of_nat n))) = Number (Fin (of_nat (n + 1)))"
proof -
  have "(of_nat n :: rat) + 1 = of_nat (n + 1)" by simp
  then have "fl (of_nat n + 1) = fl (of_nat (n + 1))" by (simp only:)
  then show ?thesis using fl_of_nat[OF assms] by (simp add: increment_def)
qed

text \<open>\<open>binade\<close> is the exponent it is meant to be.\<close>

lemma two_powi_bitlen:
  assumes "0 < x"
  shows "(2::rat) powi (bitlen x - 1) \<le> of_int x" and "of_int x < (2::rat) powi (bitlen x)"
proof -
  have b: "2 ^ nat (bitlen x - 1) \<le> x" "x < 2 ^ nat (bitlen x)"
    using bitlen_bounds[OF assms] by simp_all
  have pos: "1 \<le> bitlen x"
    using assms bitlen_nonneg[of x] bitlen_eq_zero_iff[of x] by (smt (verit))
  have "(2::rat) powi (bitlen x - 1) = of_int (2 ^ nat (bitlen x - 1))"
    using pos by (simp add: power_int_def)
  also have "\<dots> \<le> of_int x" using b(1) by (simp only: of_int_le_iff)
  finally show "(2::rat) powi (bitlen x - 1) \<le> of_int x" .
  have "(of_int x :: rat) < of_int (2 ^ nat (bitlen x))" using b(2) by (simp only: of_int_less_iff)
  also have "\<dots> = (2::rat) powi (bitlen x)"
    using pos by (simp add: power_int_def)
  finally show "of_int x < (2::rat) powi (bitlen x)" .
qed

lemma binade_bounds:
  assumes "0 < a"
  shows "2 powi (binade a) \<le> a \<and> a < 2 powi (binade a + 1)"
proof -
  obtain p q where pq: "quotient_of a = (p, q)" by (cases "quotient_of a")
  have q: "0 < q" using quotient_of_denom_pos[OF pq] .
  have a: "a = of_int p / of_int q" using quotient_of_div[OF pq] .
  have p: "0 < p" using assms q a by (simp add: zero_less_divide_iff)
  define e where "e = bitlen p - bitlen q"
  note bp = two_powi_bitlen[OF p] and bq = two_powi_bitlen[OF q]
  have qpos: "(0::rat) < of_int q" using q by simp
  have up: "a < 2 powi (e + 1)"
  proof -
    have "a * of_int q = (of_int p :: rat)" using a qpos by simp
    also have "\<dots> < 2 powi (bitlen p)" by (rule bp(2))
    also have "\<dots> = 2 powi (e + 1) * 2 powi (bitlen q - 1)"
      by (simp add: e_def power_int_add[symmetric])
    also have "\<dots> \<le> 2 powi (e + 1) * of_int q"
      using bq(1) by (intro mult_left_mono) simp_all
    finally show ?thesis using qpos by simp
  qed
  have lo: "2 powi (e - 1) < a"
  proof -
    have "(2::rat) powi (e - 1) * of_int q < 2 powi (e - 1) * 2 powi (bitlen q)"
      using bq(2) by (intro mult_strict_left_mono) simp_all
    also have "\<dots> = 2 powi (bitlen p - 1)"
      by (simp add: e_def power_int_add[symmetric])
    also have "\<dots> \<le> of_int p" by (rule bp(1))
    also have "\<dots> = a * of_int q" using a qpos by simp
    finally show ?thesis using qpos by simp
  qed
  show ?thesis
  proof (cases "2 powi e \<le> a")
    case True
    then have "binade a = e" by (simp add: binade_def pq e_def)
    with True up show ?thesis by simp
  next
    case False
    then have "binade a = e - 1" by (simp add: binade_def pq e_def)
    with False lo show ?thesis by simp
  qed
qed

lemma round_even_near: "\<bar>x - of_int (round_even x)\<bar> \<le> 1 / 2"
proof -
  have "of_int \<lfloor>x\<rfloor> \<le> x" "x < of_int \<lfloor>x\<rfloor> + 1" by linarith+
  then show ?thesis
    by (auto simp: round_even_def Let_def abs_le_iff)
qed

text \<open>
  \<open>fl\<close> rounds to nearest: a finite result is a multiple of the spacing of its binade,
  with a significand of at most 53 bits, and lies within half that spacing of the argument.
\<close>

lemma fl_nearest:
  assumes "fl x = Fin y"
  shows "\<bar>x - y\<bar> \<le> 2 powi (max (binade \<bar>x\<bar>) (- 1022) - 52) / 2"
proof (cases "x = 0")
  case True
  then show ?thesis using assms by (simp add: fl_def)
next
  case False
  define u :: rat where "u = 2 powi (max (binade \<bar>x\<bar>) (- 1022) - 52)"
  have u: "0 < u" by (simp add: u_def)
  define m where "m = round_even (\<bar>x\<bar> / u)"
  have y: "y = sgn x * (of_int m * u)"
    using assms False by (auto simp: fl_def Let_def u_def m_def split: if_splits)
  have r: "\<bar>\<bar>x\<bar> / u - of_int m\<bar> \<le> 1 / 2" unfolding m_def by (rule round_even_near)
  have "\<bar>x - y\<bar> = \<bar>\<bar>x\<bar> - of_int m * u\<bar>"
  proof (cases "0 < x")
    case True
    then show ?thesis unfolding y by simp
  next
    case neg: False
    with False have "x < 0" by simp
    then have "x - y = - (\<bar>x\<bar> - of_int m * u)" unfolding y by simp
    then show ?thesis by (simp only: abs_minus_cancel)
  qed
  also have "\<dots> = \<bar>\<bar>x\<bar> / u - of_int m\<bar> * u"
    using u by (simp add: abs_mult[symmetric] field_simps del: abs_mult)
  also have "\<dots> \<le> 1 / 2 * u"
    using r u by (intro mult_right_mono) simp_all
  finally show ?thesis by (simp add: u_def)
qed

lemma round_even_le:
  assumes "x \<le> of_int k"
  shows "round_even x \<le> k"
proof (cases "x = of_int k")
  case True
  then show ?thesis by simp
next
  case False
  with assms have "x < of_int k" by simp
  then have "\<lfloor>x\<rfloor> < k" by (simp add: floor_less_iff)
  then show ?thesis by (auto simp: round_even_def Let_def)
qed

lemma fl_significand:
  assumes "fl x = Fin y"
  shows "\<exists>m. y = of_int m * 2 powi (max (binade \<bar>x\<bar>) (- 1022) - 52) \<and> \<bar>m\<bar> \<le> 2 ^ 53"
proof (cases "x = 0")
  case True
  then have "y = of_int 0 * 2 powi (max (binade \<bar>x\<bar>) (- 1022) - 52)"
    using assms by (simp add: fl_def)
  then show ?thesis by (intro exI[of _ 0]) simp
next
  case False
  define e where "e = max (binade \<bar>x\<bar>) (- 1022)"
  define u :: rat where "u = 2 powi (e - 52)"
  have u: "0 < u" by (simp add: u_def)
  define m where "m = round_even (\<bar>x\<bar> / u)"
  have y: "y = sgn x * (of_int m * u)"
    using assms False by (auto simp: fl_def Let_def u_def e_def m_def split: if_splits)
  have "\<bar>x\<bar> < 2 powi (binade \<bar>x\<bar> + 1)"
    using binade_bounds[of "\<bar>x\<bar>"] False by simp
  also have "\<dots> \<le> 2 powi (e + 1)"
    by (intro power_int_increasing) (simp_all add: e_def)
  also have "\<dots> = 2 ^ 53 * u"
  proof -
    have "e + 1 = 53 + (e - 52)" by arith
    then have "(2::rat) powi (e + 1) = 2 powi (53 + (e - 52))" by (simp only:)
    also have "\<dots> = 2 powi 53 * 2 powi (e - 52)" by (rule power_int_add) simp
    also have "(2::rat) powi 53 = 2 ^ 53" by (simp only: power_int_def) simp
    finally show ?thesis by (simp only: u_def)
  qed
  finally have "\<bar>x\<bar> / u \<le> of_int (2 ^ 53)"
    using u by (simp add: field_simps)
  then have hi: "m \<le> 2 ^ 53" unfolding m_def by (rule round_even_le)
  have "0 \<le> \<bar>x\<bar> / u" using u by simp
  then have lo: "0 \<le> m"
    unfolding m_def by (auto simp: round_even_def Let_def)
  have "y = of_int (if 0 < x then m else - m) * u"
    unfolding y using False by (auto simp: sgn_if)
  moreover have "\<bar>if 0 < x then m else - m\<bar> \<le> 2 ^ 53" using hi lo by simp
  ultimately show ?thesis unfolding u_def e_def by blast
qed

text \<open>The percentages and averages used in the instances below.\<close>

lemma percentage_8_10: "Math_round (js_mul (js_div (Fin 8) (Fin 10)) (Fin 100)) = Fin 80"
  by code_simp

lemma percentage_23_40: "Math_round (js_mul (js_div (Fin 23) (Fin 40)) (Fin 100)) = Fin 57"
  by code_simp

lemma rate_1_2: "Math_round (js_mul (js_div (Fin 1) (Fin 2)) (Fin 100)) = Fin 50"
  by code_simp

lemma mean_80: "Math_round (js_div (js_add (Fin 0) (Fin 80)) (Fin 1)) = Fin 80"
  by code_simp

subsection \<open>Reading and writing the store\<close>

lemma safeParseJSON_eq:
  "safeParseJSON e entry fallback =
     (if storage_denied e then fallback else case entry of JsonText v \<Rightarrow> v | _ \<Rightarrow> fallback)"
  by (simp add: safeParseJSON_def safeParseJSON_try_def localStorage_getItem_def split: item.splits)

lemma safeStoreJSON_eq:
  "snd (safeStoreJSON e key json data entry) =
     (if storage_denied e \<or> quota_exceeded e key then entry else JsonText (json data))"
  by (simp add: safeStoreJSON_def localStorage_setItem_def)

text \<open>
  Claim C8. \<open>safeParseJSON\<close> returns the fallback when the store denies access, when the
  entry is absent and when it does not parse; more generally whenever its \<open>try\<close> block
  throws. In particular \<open>getProgress\<close> returns the empty mapping for an unparsable entry.
\<close>

theorem safeParseJSON_falls_back:
  "(storage_denied e \<or> entry = Missing \<or> entry = Malformed
      \<longrightarrow> safeParseJSON e entry fallback = fallback)
   \<and> ((\<exists>err. safeParseJSON_try e entry fallback = Inl err)
      \<longrightarrow> safeParseJSON e entry fallback = fallback)
   \<and> (progress_text st = Malformed \<longrightarrow> getProgress e st = Mapping [])"
proof -
  have "safeParseJSON e entry fallback = fallback"
    if "safeParseJSON_try e entry fallback = Inl err" for err
    using that by (simp add: safeParseJSON_def)
  then show ?thesis
    by (auto simp: safeParseJSON_eq getProgress_def)
qed

text \<open>Instances for C8.\<close>

theorem safeParseJSON_falls_back_witness:
  "safeParseJSON browser Malformed (Mapping [(''quiz'', passed_quiz)]) = Mapping [(''quiz'', passed_quiz)]
   \<and> safeParseJSON (browser\<lparr>storage_denied := True\<rparr>) (JsonText JNull) (JNumber (Fin 1)) = JNumber (Fin 1)
   \<and> safeParseJSON_try browser (Malformed :: progress_doc item) JNull = Inl SyntaxError
   \<and> getProgress browser \<lparr>progress_text = Malformed, summary_text = Missing\<rparr> = Mapping []"
proof -
  have t: "safeParseJSON_try browser (Malformed :: progress_doc item) JNull = Inl SyntaxError"
    by (simp add: safeParseJSON_try_def localStorage_getItem_def browser_def)
  show ?thesis
    using t
      safeParseJSON_falls_back[of browser Malformed "Mapping [(''quiz'', passed_quiz)]"
        "\<lparr>progress_text = Malformed, summary_text = Missing\<rparr>"]
      safeParseJSON_falls_back[of "browser\<lparr>storage_denied := True\<rparr>" "JsonText JNull" "JNumber (Fin 1)"]
    by simp
qed

text \<open>
  Claim C10. \<open>safeParseJSON\<close> returns the fallback when \<open>getItem\<close> throws, whatever is
  stored. On an accessible store it returns the fallback only for an absent, empty or
  unparsable entry; what a text parses to is returned as it is, whatever its shape. So on
  an accessible store \<open>getProgress\<close> returns \<open>null\<close> for the text \<open>null\<close> and 0 for the
  text \<open>0\<close>, where a mapping is expected.
\<close>

theorem safeParseJSON_returns_parsed_value:
  "(storage_denied e \<longrightarrow> safeParseJSON e entry fallback = fallback)
   \<and> (\<not> storage_denied e
        \<longrightarrow> safeParseJSON e entry fallback = (case entry of JsonText v \<Rightarrow> v | _ \<Rightarrow> fallback))
   \<and> (\<not> storage_denied e \<and> progress_text st = JsonText JNull \<longrightarrow> getProgress e st = JNull)
   \<and> (\<not> storage_denied e \<and> progress_text st = JsonText (JNumber (Fin 0))
        \<longrightarrow> getProgress e st = JNumber (Fin 0))"
  by (simp add: safeParseJSON_eq getProgress_def)

text \<open>Instances for C10, on an accessible store and on one that denies access.\<close>

theorem safeParseJSON_returns_parsed_value_witness:
  "\<not> storage_denied browser
   \<and> storage_denied (browser\<lparr>storage_denied := True\<rparr>)
   \<and> getProgress browser null_storage = JNull
   \<and> getProgress browser \<lparr>progress_text = JsonText (JNumber (Fin 0)), summary_text = Missing\<rparr>
       = JNumber (Fin 0)
   \<and> safeParseJSON browser (JsonText (JBoolean False)) (Mapping []) = JBoolean False
   \<and> safeParseJSON browser (EmptyText :: progress_doc item) (Mapping []) = Mapping []
   \<and> safeParseJSON (browser\<lparr>storage_denied := True\<rparr>) (JsonText (JBoolean False)) (Mapping [])
       = Mapping []"
proof -
  have h: "\<not> storage_denied browser" by (simp add: browser_def)
  have d: "storage_denied (browser\<lparr>storage_denied := True\<rparr>)" by simp
  show ?thesis
    using h d
      safeParseJSON_returns_parsed_value[of browser "JsonText (JBoolean False)" "Mapping []"
        null_storage]
      safeParseJSON_returns_parsed_value[of browser EmptyText "Mapping []"
        "\<lparr>progress_text = JsonText (JNumber (Fin 0)), summary_text = Missing\<rparr>"]
      safeParseJSON_returns_parsed_value[of "browser\<lparr>storage_denied := True\<rparr>"
        "JsonText (JBoolean False)" "Mapping []" null_storage]
    by (simp add: null_storage_def)
qed

text \<open>
  Claim C10 as first stated has the fallback only for an absent, empty or unparsable
  entry. There is a fourth case: \<open>getItem\<close> is inside the \<open>try\<close> block, so when it throws
  the fallback is returned although the entry is valid JSON. With the text \<open>null\<close> under
  the progress key \<open>getProgress\<close> returns \<open>null\<close> on an accessible store and the empty
  mapping on one that denies access.
\<close>

theorem denied_store_returns_fallback:
  "progress_text null_storage = JsonText JNull
   \<and> getProgress browser null_storage = JNull
   \<and> getProgress (browser\<lparr>storage_denied := True\<rparr>) null_storage = Mapping []"
  by (simp add: null_storage_def getProgress_def safeParseJSON_eq browser_def)

subsection \<open>The completion percentage\<close>

text \<open>
  Claim C6. \<open>calculateCompletionPercentage\<close> is 0 without a result or without a score;
  with a score it is 0 when \<open>max\<close> is 0 and otherwise \<open>Math.round((raw / max) * 100)\<close>,
  \<open>raw\<close> defaulting to 0 and \<open>max\<close> to 1; it is 80 for 8 out of 10 and 0 for 1 out
  of 0.
\<close>

theorem calculateCompletionPercentage_cases:
  "calculateCompletionPercentage None = Fin 0
   \<and> (score r = None \<longrightarrow> calculateCompletionPercentage (Some r) = Fin 0)
   \<and> (score r = Some sc \<longrightarrow>
        calculateCompletionPercentage (Some r) =
          (let raw = (case score_raw sc of None \<Rightarrow> Fin 0 | Some x \<Rightarrow> x);
               mx = (case score_max sc of None \<Rightarrow> Fin 1 | Some x \<Rightarrow> x)
           in if mx = Fin 0 then Fin 0 else Math_round (js_mul (js_div raw mx) (Fin 100))))
   \<and> (score r = Some \<lparr>score_raw = Some (Fin 8), score_max = Some (Fin 10)\<rparr>
        \<longrightarrow> calculateCompletionPercentage (Some r) = Fin 80)
   \<and> (score r = Some \<lparr>score_raw = Some (Fin 1), score_max = Some (Fin 0)\<rparr>
        \<longrightarrow> calculateCompletionPercentage (Some r) = Fin 0)"
  by (simp add: calculateCompletionPercentage_def percentage_8_10 del: js_div.simps js_mul.simps)

text \<open>
  Instances for C6. The last one shows the double arithmetic at work: \<open>(23 / 40) * 100\<close>
  is \<open>57.49999999999999\<close> in doubles, so the percentage is 57 and not 58.
\<close>

theorem calculateCompletionPercentage_cases_witness:
  "calculateCompletionPercentage (Some (scored 8 10)) = Fin 80
   \<and> calculateCompletionPercentage (Some (scored 1 0)) = Fin 0
   \<and> calculateCompletionPercentage (Some \<lparr>score = None, success = Some True\<rparr>) = Fin 0
   \<and> calculateCompletionPercentage (Some (scored 23 40)) = Fin 57"
proof -
  note c = calculateCompletionPercentage_cases
  have "calculateCompletionPercentage (Some (scored 8 10)) = Fin 80"
    using c[of "scored 8 10", THEN conjunct2, THEN conjunct2, THEN conjunct2, THEN conjunct1]
    by (simp add: scored_def)
  moreover have "calculateCompletionPercentage (Some (scored 1 0)) = Fin 0"
    using c[of "scored 1 0", THEN conjunct2, THEN conjunct2, THEN conjunct2, THEN conjunct2]
    by (simp add: scored_def)
  moreover have "calculateCompletionPercentage (Some \<lparr>score = None, success = Some True\<rparr>) = Fin 0"
    using c[of "\<lparr>score = None, success = Some True\<rparr>", THEN conjunct2, THEN conjunct1]
    by simp
  moreover have "calculateCompletionPercentage (Some (scored 23 40)) = Fin 57"
    using c[of "scored 23 40" "\<lparr>score_raw = Some (Fin 23), score_max = Some (Fin 40)\<rparr>",
        THEN conjunct2, THEN conjunct2, THEN conjunct1]
    by (simp add: scored_def percentage_23_40 del: js_div.simps js_mul.simps)
  ultimately show ?thesis by blast
qed

subsection \<open>The slug of a statement\<close>

lemma tail_has_slash:
  assumes "\<not> list_all not_slash x"
  shows "dropWhile not_slash (p @ CHR ''/'' # x) \<noteq> []
         \<and> \<not> list_all not_slash (tl (dropWhile not_slash (p @ CHR ''/'' # x)))"
  using assms by (induction p) (auto simp: not_slash_def)

lemma no_match_before:
  assumes "\<not> list_all not_slash x"
  shows "slash_segment_tail_end (c # p @ CHR ''/'' # x) = None"
  using tail_has_slash[OF assms, of p] by (simp add: Let_def)

lemma search_second_last_segment:
  assumes "seg \<noteq> []" "list_all not_slash seg" "list_all not_slash t"
  shows "regex_search slash_segment_tail_end (p @ CHR ''/'' # seg @ CHR ''/'' # t) = Some seg"
proof (induction p)
  case Nil
  have "takeWhile not_slash (seg @ CHR ''/'' # t) = seg"
    using assms(2) by (induction seg) (auto simp: not_slash_def)
  moreover have "dropWhile not_slash (seg @ CHR ''/'' # t) = CHR ''/'' # t"
    using assms(2) by (induction seg) (auto simp: not_slash_def)
  ultimately show ?case using assms by (simp add: Let_def)
next
  case (Cons c p)
  have "\<not> list_all not_slash (seg @ CHR ''/'' # t)" by (simp add: not_slash_def)
  from no_match_before[OF this, of c p] Cons show ?case by simp
qed

text \<open>
  Claim C4 against the code. Without a context extension, an object identifier that ends
  in \<open>/h5p/entrepreneur-legacy-quick-awareness\<close> yields the slug \<open>h5p\<close>, not
  \<open>entrepreneur-legacy-quick-awareness\<close>: the leftmost match of the pattern starts at the
  slash before \<open>h5p\<close> and takes the last segment for the optional trailing part. With no
  object identifier either (or an empty one), the slug is \<open>unknown-activity\<close>, as claimed.
\<close>

theorem extractActivitySlug_object_id:
  assumes "ext_contentId statement = None" and "ext_content_id statement = None"
  shows "(object_id statement = Some (p @ ''/h5p/entrepreneur-legacy-quick-awareness'')
            \<longrightarrow> extractActivitySlug statement = ''h5p'')
         \<and> (object_id statement = None \<or> object_id statement = Some []
            \<longrightarrow> extractActivitySlug statement = ''unknown-activity'')"
proof -
  have "regex_search slash_segment_tail_end
          (p @ CHR ''/'' # ''h5p'' @ CHR ''/'' # ''entrepreneur-legacy-quick-awareness'') = Some ''h5p''"
    by (rule search_second_last_segment) (simp_all add: not_slash_def)
  then show ?thesis
    using assms by (auto simp: extractActivitySlug_def)
qed

text \<open>An instance for C4, at a full URL.\<close>

theorem extractActivitySlug_object_id_witness:
  "extractActivitySlug (about answered ''https://example.com/h5p/entrepreneur-legacy-quick-awareness'' None) = ''h5p''
   \<and> extractActivitySlug \<lparr>verb_id = Some answered, result = None, ext_contentId = None,
        ext_content_id = None, object_id = None\<rparr> = ''unknown-activity''"
  using extractActivitySlug_object_id[of "about answered ''https://example.com/h5p/entrepreneur-legacy-quick-awareness'' None" "''https://example.com''"]
    extractActivitySlug_object_id[of "\<lparr>verb_id = Some answered, result = None, ext_contentId = None,
        ext_content_id = None, object_id = None\<rparr>" "[]"]
  by (simp add: about_def)

subsection \<open>What one update does\<close>

lemma endsWith_answered_not_completed:
  "endsWith verb ''/answered'' \<Longrightarrow> \<not> endsWith verb ''/completed''"
proof
  assume a: "endsWith verb ''/answered''" and c: "endsWith verb ''/completed''"
  have "suffix ''/answered'' ''/completed'' \<or> suffix ''/completed'' ''/answered''"
    using a c unfolding endsWith_def by (meson suffix_same_cases)
  then show False by (simp add: suffix_to_prefix)
qed

lemma endsWith_nonempty: "endsWith verb (c # t) \<Longrightarrow> verb \<noteq> []"
  by (auto simp: endsWith_def)

lemma map_of_insert_new:
  assumes "map_of m k = None"
  shows "map_of (takeWhile P m @ (k, v) # dropWhile P m) = (map_of m)(k \<mapsto> v)"
proof -
  have m: "m = takeWhile P m @ dropWhile P m" by simp
  have "map_of (takeWhile P m) k = None"
    using assms by (metis m map_of_append map_add_None)
  show ?thesis
  proof
    fix t
    show "map_of (takeWhile P m @ (k, v) # dropWhile P m) t = ((map_of m)(k \<mapsto> v)) t"
      using \<open>map_of (takeWhile P m) k = None\<close>
      by (subst (3) m) (auto simp: map_add_def map_of_append simp del: takeWhile_dropWhile_id split: option.splits)
  qed
qed

lemma map_of_own_put: "map_of (own_put m k v) = (map_of m)(k \<mapsto> v)"
proof (cases "map_of m k")
  case None
  have "map_of (m @ [(k, v)]) = (map_of m)(k \<mapsto> v)"
    using None by (auto simp: fun_eq_iff map_add_def split: option.splits)
  then show ?thesis
    using None by (simp add: own_put_def map_of_insert_new del: map_of_append)
next
  case (Some a)
  then show ?thesis by (simp add: own_put_def AList.update_conv')
qed

lemma map_of_JSON:
  "map_of (map (\<lambda>(k, a). (k, JSON_activity a)) m) t = map_option JSON_activity (map_of m t)"
  by (induction m) auto

lemma progress_text_updateProgressSummary [simp]:
  "progress_text (updateProgressSummary e st d) = progress_text st"
  by (simp add: updateProgressSummary_def split: sum.splits)

lemma updateProgress_unqualified:
  assumes "verb_id statement = None \<or> verb_id statement = Some []
           \<or> (\<exists>verb. verb_id statement = Some verb \<and> \<not> endsWith verb ''/answered''
                  \<and> \<not> endsWith verb ''/completed'')"
  shows "updateProgress e st statement = st"
  using assms by (auto simp: updateProgress_def updateProgress_try_def Let_def)

lemma updateProgress_qualified:
  assumes "verb_id statement = Some verb"
    and "endsWith verb ''/answered'' \<or> endsWith verb ''/completed''"
  shows "updateProgress e st statement =
     (case step_doc e verb (result statement) (getProgress e st) (extractActivitySlug statement) of
        Inl err \<Rightarrow> st
      | Inr updated \<Rightarrow>
          updateProgressSummary e
            (st\<lparr>progress_text :=
                  snd (safeStoreJSON e PROGRESS_KEY JSON_progress updated (progress_text st))\<rparr>)
            updated)"
proof -
  have "verb \<noteq> []" using assms(2) by (auto dest: endsWith_nonempty)
  then show ?thesis
    using assms
    by (auto simp: updateProgress_def updateProgress_try_def Let_def step_doc_def getProgress_def
        split: sum.splits)
qed

lemma step_doc_Mapping:
  "step_doc e verb res (Mapping m) s =
     (case map_of m s of
        Some a \<Rightarrow> Inr (Mapping (own_put m s (update_activity e verb res a)))
      | None \<Rightarrow>
          (case proto e s of
             NotInherited \<Rightarrow>
               Inr (Mapping (own_put (own_put m s (initial_progress e s)) s
                               (update_activity e verb res (initial_progress e s))))
           | InheritedPrimitive \<Rightarrow> Inl TypeError
           | InheritedObject \<Rightarrow> Inr (Mapping m)))"
  by (simp add: step_doc_def initialise_missing_def mutate_member_def map_of_own_put
      split: option.splits inherited.splits)

lemma step_doc_JNull: "step_doc e verb res JNull s = Inl TypeError"
  by (simp add: step_doc_def initialise_missing_def)

lemma step_doc_JNumber:
  "step_doc e verb res (JNumber x) s =
     (case proto e s of InheritedObject \<Rightarrow> Inr (JNumber x) | _ \<Rightarrow> Inl TypeError)"
  by (simp add: step_doc_def initialise_missing_def mutate_member_def split: inherited.splits)

lemma step_doc_JBoolean:
  "step_doc e verb res (JBoolean b) s =
     (case proto e s of InheritedObject \<Rightarrow> Inr (JBoolean b) | _ \<Rightarrow> Inl TypeError)"
  by (simp add: step_doc_def initialise_missing_def mutate_member_def split: inherited.splits)

lemmas step_doc_simps = step_doc_Mapping step_doc_JNull step_doc_JNumber step_doc_JBoolean

lemma step_doc_frame:
  assumes "step_doc e verb res d s = Inr d'" and "t \<noteq> s"
  shows "doc_record d' t = doc_record d t"
  using assms
  by (cases d) (auto simp: step_doc_simps map_of_own_put split: option.splits inherited.splits)

lemma step_doc_reaches:
  assumes "reaches_record e d s"
  shows "\<exists>d'. step_doc e verb res d s = Inr d'
           \<and> doc_record d' s = Some (update_activity e verb res
                 (case doc_record d s of Some a \<Rightarrow> a | None \<Rightarrow> initial_progress e s))"
  using assms
  by (cases d) (auto simp: step_doc_simps map_of_own_put split: option.splits inherited.splits)

lemma step_doc_reaches_Mapping:
  assumes "reaches_record e d s"
  shows "\<exists>m'. step_doc e verb res d s = Inr (Mapping m')"
  using assms
  by (cases d) (auto simp: step_doc_simps split: option.splits inherited.splits)

lemma doc_record_JSON:
  "doc_record (JSON_progress d) t = map_option JSON_activity (doc_record d t)"
proof (cases d)
  case (JNumber x)
  then show ?thesis by (cases x) simp_all
qed (simp_all add: map_of_JSON)

lemma json_clean_record:
  assumes "json_clean (JsonText d)" and "doc_record d t = Some a"
  shows "JSON_activity a = a"
  using assms doc_record_JSON[of d t] by simp

lemma updateProgress_persists:
  assumes v: "verb_id statement = Some verb"
    and q: "endsWith verb ''/answered'' \<or> endsWith verb ''/completed''"
    and p: "persists e st (extractActivitySlug statement)"
  shows "stored_record (updateProgress e st statement) (extractActivitySlug statement) =
     Some (JSON_activity (update_activity e verb (result statement)
             (previous_record e st (extractActivitySlug statement))))"
proof -
  let ?s = "extractActivitySlug statement"
  from p have r: "reaches_record e (getProgress e st) ?s"
    and w: "\<not> storage_denied e" "\<not> quota_exceeded e PROGRESS_KEY"
    by (simp_all add: persists_def)
  from step_doc_reaches[OF r, of verb "result statement"] obtain d' where
    d: "step_doc e verb (result statement) (getProgress e st) ?s = Inr d'"
    and a: "doc_record d' ?s = Some (update_activity e verb (result statement)
              (previous_record e st ?s))"
    by (auto simp: previous_record_def)
  show ?thesis
    using w a
    by (simp add: updateProgress_qualified[OF v q] d stored_record_def safeStoreJSON_eq
        doc_record_JSON)
qed

subsection \<open>Statements that do not qualify\<close>

text \<open>
  Claim C7. When the verb is absent, or ends in neither \<open>/answered\<close> nor \<open>/completed\<close>
  (the empty verb included), \<open>updateProgress\<close> returns the store as it was: both entries
  are the ones found.
\<close>

theorem updateProgress_ignores_other_verbs:
  assumes "verb_id statement = None
           \<or> (\<exists>verb. verb_id statement = Some verb \<and> \<not> endsWith verb ''/answered''
                  \<and> \<not> endsWith verb ''/completed'')"
  shows "updateProgress e st statement = st"
  using assms by (auto simp: updateProgress_def updateProgress_try_def Let_def)

text \<open>Instances for C7: an \<open>attempted\<close> statement, and one without a verb.\<close>

theorem updateProgress_ignores_other_verbs_witness:
  "\<not> endsWith ''http://adlnet.gov/expapi/verbs/attempted'' ''/answered''
   \<and> \<not> endsWith ''http://adlnet.gov/expapi/verbs/attempted'' ''/completed''
   \<and> updateProgress browser one_quiz
        (about ''http://adlnet.gov/expapi/verbs/attempted'' ''/quiz'' (Some (scored 8 10))) = one_quiz
   \<and> updateProgress browser one_quiz
        \<lparr>verb_id = None, result = None, ext_contentId = None, ext_content_id = None,
         object_id = Some ''/quiz''\<rparr> = one_quiz"
proof -
  have h: "\<not> endsWith ''http://adlnet.gov/expapi/verbs/attempted'' ''/answered''
           \<and> \<not> endsWith ''http://adlnet.gov/expapi/verbs/attempted'' ''/completed''"
    by code_simp
  have v: "verb_id (about ''http://adlnet.gov/expapi/verbs/attempted'' ''/quiz'' (Some (scored 8 10)))
             = Some ''http://adlnet.gov/expapi/verbs/attempted''"
    by (simp add: about_def)
  show ?thesis
    using h v
      updateProgress_ignores_other_verbs[of
        "about ''http://adlnet.gov/expapi/verbs/attempted'' ''/quiz'' (Some (scored 8 10))"
        browser one_quiz]
      updateProgress_ignores_other_verbs[of
        "\<lparr>verb_id = None, result = None, ext_contentId = None, ext_content_id = None,
          object_id = Some ''/quiz''\<rparr>" browser one_quiz]
    by simp
qed

subsection \<open>The other slugs\<close>

lemma updateProgress_frame:
  assumes "json_clean (progress_text st)" and "t \<noteq> extractActivitySlug statement"
  shows "stored_record (updateProgress e st statement) t = stored_record st t"
proof (cases "\<exists>verb. verb_id statement = Some verb
                \<and> (endsWith verb ''/answered'' \<or> endsWith verb ''/completed'')")
  case False
  then have "updateProgress e st statement = st"
    by (intro updateProgress_unqualified) (cases "verb_id statement", auto)
  then show ?thesis by simp
next
  case True
  then obtain verb where v: "verb_id statement = Some verb"
    and q: "endsWith verb ''/answered'' \<or> endsWith verb ''/completed''" by blast
  let ?s = "extractActivitySlug statement"
  show ?thesis
  proof (cases "storage_denied e \<or> quota_exceeded e PROGRESS_KEY")
    case True
    then have "progress_text (updateProgress e st statement) = progress_text st"
      by (auto simp: updateProgress_qualified[OF v q] safeStoreJSON_eq split: sum.splits)
    then show ?thesis by (simp add: stored_record_def)
  next
    case False
    have g: "doc_record (getProgress e st) t = stored_record st t"
      using False
      by (cases "progress_text st") (simp_all add: getProgress_def safeParseJSON_eq stored_record_def)
    show ?thesis
    proof (cases "step_doc e verb (result statement) (getProgress e st) ?s")
      case (Inl err)
      then show ?thesis by (simp add: updateProgress_qualified[OF v q])
    next
      case (Inr d')
      have "doc_record d' t = stored_record st t"
        using step_doc_frame[OF Inr assms(2)] g by simp
      moreover have "map_option JSON_activity (stored_record st t) = stored_record st t"
      proof (cases "stored_record st t")
        case (Some a)
        then obtain d where "progress_text st = JsonText d" "doc_record d t = Some a"
          by (cases "progress_text st") (auto simp: stored_record_def)
        with assms(1) json_clean_record[of d t a] Some show ?thesis by simp
      qed simp
      ultimately show ?thesis
        using False
        by (simp add: updateProgress_qualified[OF v q] Inr stored_record_def safeStoreJSON_eq
            doc_record_JSON)
    qed
  qed
qed

text \<open>
  Without the condition on the stored numbers, every other slug is bound to the record
  read or to what \<open>JSON.stringify\<close> makes of it.
\<close>

lemma updateProgress_frame_JSON:
  assumes "t \<noteq> extractActivitySlug statement"
  shows "stored_record (updateProgress e st statement) t = stored_record st t
         \<or> stored_record (updateProgress e st statement) t
             = map_option JSON_activity (stored_record st t)"
proof (cases "\<exists>verb. verb_id statement = Some verb
                \<and> (endsWith verb ''/answered'' \<or> endsWith verb ''/completed'')")
  case False
  then have "updateProgress e st statement = st"
    by (intro updateProgress_unqualified) (cases "verb_id statement", auto)
  then show ?thesis by simp
next
  case True
  then obtain verb where v: "verb_id statement = Some verb"
    and q: "endsWith verb ''/answered'' \<or> endsWith verb ''/completed''" by blast
  let ?s = "extractActivitySlug statement"
  show ?thesis
  proof (cases "storage_denied e \<or> quota_exceeded e PROGRESS_KEY")
    case True
    then have "progress_text (updateProgress e st statement) = progress_text st"
      by (auto simp: updateProgress_qualified[OF v q] safeStoreJSON_eq split: sum.splits)
    then show ?thesis by (simp add: stored_record_def)
  next
    case False
    have g: "doc_record (getProgress e st) t = stored_record st t"
      using False
      by (cases "progress_text st") (simp_all add: getProgress_def safeParseJSON_eq stored_record_def)
    show ?thesis
    proof (cases "step_doc e verb (result statement) (getProgress e st) ?s")
      case (Inl err)
      then show ?thesis by (simp add: updateProgress_qualified[OF v q])
    next
      case (Inr d')
      have "doc_record d' t = stored_record st t"
        using step_doc_frame[OF Inr assms] g by simp
      then show ?thesis
        using False
        by (simp add: updateProgress_qualified[OF v q] Inr stored_record_def safeStoreJSON_eq
            doc_record_JSON)
    qed
  qed
qed

text \<open>
  The condition on the stored numbers is an invariant: whatever \<open>updateProgress\<close> writes
  satisfies it, and so does the empty store; hence so does every store that a run of calls
  reaches from the empty one.
\<close>

lemma JSON_number_idem [simp]: "JSON_number (JSON_number x) = JSON_number x"
  by (cases x rule: JSON_number.cases) simp_all

lemma JSON_activity_idem [simp]: "JSON_activity (JSON_activity a) = JSON_activity a"
  by (simp add: JSON_activity_def)

lemma JSON_progress_idem [simp]: "JSON_progress (JSON_progress d) = JSON_progress d"
proof (cases d)
  case (JNumber x)
  then show ?thesis by (cases x) simp_all
qed (simp_all add: case_prod_unfold)

lemma json_clean_kept:
  assumes "json_clean (progress_text st)"
  shows "json_clean (progress_text (updateProgress e st statement))"
proof (cases "\<exists>verb. verb_id statement = Some verb
                \<and> (endsWith verb ''/answered'' \<or> endsWith verb ''/completed'')")
  case False
  then have "updateProgress e st statement = st"
    by (intro updateProgress_unqualified) (cases "verb_id statement", auto)
  then show ?thesis using assms by simp
next
  case True
  then obtain verb where v: "verb_id statement = Some verb"
    and q: "endsWith verb ''/answered'' \<or> endsWith verb ''/completed''" by blast
  show ?thesis
    using assms
    by (auto simp: updateProgress_qualified[OF v q] safeStoreJSON_eq split: sum.splits)
qed

lemma json_clean_empty: "json_clean (progress_text empty_storage)"
  by (simp add: empty_storage_def)

lemma json_clean_updates:
  assumes "json_clean (progress_text st)"
  shows "json_clean (progress_text (updates st run))"
  using assms
proof (induction run arbitrary: st)
  case Nil
  then show ?case by simp
next
  case (Cons c run)
  obtain e statement where c: "c = (e, statement)" by (cases c)
  have "json_clean (progress_text (updateProgress e st statement))"
    using Cons.prems by (rule json_clean_kept)
  then show ?case using Cons.IH by (simp add: c)
qed

text \<open>
  Claim C9. Whatever the statement and the environment, \<open>updateProgress\<close> leaves every
  slug other than the statement's bound in the store to the record it was bound to or to
  what \<open>JSON.stringify\<close> makes of that record (and unbound if it was unbound). When the
  stored numbers are finite or \<open>null\<close> the binding is exactly the one found; this is so,
  with no condition, in every store that a run of \<open>updateProgress\<close> calls reaches from the
  empty store.
\<close>

theorem other_slugs_untouched:
  assumes "t \<noteq> extractActivitySlug statement"
  shows "(stored_record (updateProgress e st statement) t = stored_record st t
          \<or> stored_record (updateProgress e st statement) t
              = map_option JSON_activity (stored_record st t))
         \<and> (json_clean (progress_text st)
              \<longrightarrow> stored_record (updateProgress e st statement) t = stored_record st t)
         \<and> stored_record (updateProgress e (updates empty_storage run) statement) t
             = stored_record (updates empty_storage run) t"
proof -
  have "json_clean (progress_text (updates empty_storage run))"
    using json_clean_empty by (rule json_clean_updates)
  then show ?thesis
    using assms updateProgress_frame_JSON[OF assms, of e st]
      updateProgress_frame[of st t statement e]
      updateProgress_frame[of "updates empty_storage run" t statement e]
    by blast
qed

text \<open>
  Instances for C9: completing a poll leaves the record of the quiz as it was, in a store
  that holds the quiz and in the store reached from the empty one by completing the quiz.
\<close>

theorem other_slugs_untouched_witness:
  "''quiz'' \<noteq> extractActivitySlug (about completed ''/poll'' (Some (scored 8 10)))
   \<and> json_clean (progress_text one_quiz)
   \<and> stored_record (updateProgress browser one_quiz (about completed ''/poll'' (Some (scored 8 10))))
        ''quiz'' = Some passed_quiz
   \<and> stored_record
        (updateProgress browser
           (updates empty_storage [(browser, about completed ''/quiz'' (Some (scored 8 10)))])
           (about completed ''/poll'' (Some (scored 8 10))))
        ''quiz''
       = Some \<lparr>slug = ''quiz'', questionsAnswered = Number (Fin 0),
                questionsCompleted = Number (Fin 1), lastScore = Number (Fin 8),
                lastSuccess = False, completionPercentage = Number (Fin 80),
                isCompleted = True, lastActivity = ''2025-01-01T10:00:00.000Z''\<rparr>"
proof -
  have h1: "''quiz'' \<noteq> extractActivitySlug (about completed ''/poll'' (Some (scored 8 10)))"
    by code_simp
  have h2: "json_clean (progress_text one_quiz)" by code_simp
  have a: "stored_record one_quiz ''quiz'' = Some passed_quiz"
    by (simp add: stored_record_def one_quiz_def)
  have b: "stored_record
             (updates empty_storage [(browser, about completed ''/quiz'' (Some (scored 8 10)))])
             ''quiz''
           = Some \<lparr>slug = ''quiz'', questionsAnswered = Number (Fin 0),
                questionsCompleted = Number (Fin 1), lastScore = Number (Fin 8),
                lastSuccess = False, completionPercentage = Number (Fin 80),
                isCompleted = True, lastActivity = ''2025-01-01T10:00:00.000Z''\<rparr>"
    by code_simp
  show ?thesis
    using h1 h2 a b
      other_slugs_untouched[OF h1, of browser one_quiz
        "[(browser, about completed ''/quiz'' (Some (scored 8 10)))]"]
    by simp
qed

text \<open>
  Claim C9 as first stated has every other slug bound to exactly the record read,
  whatever the store holds. A progress text written by something else can hold a number
  that parses to \<open>Infinity\<close>; \<open>JSON.stringify\<close> writes it back as \<open>null\<close>. Here the text
  has \<open>1e999\<close> as the percentage of the poll, and an \<open>answered\<close> statement for the quiz
  rewrites the record of the poll.
\<close>

theorem infinite_percentage_rewritten:
  "''poll'' \<noteq> extractActivitySlug (about answered ''/quiz'' None)
   \<and> endsWith answered ''/answered''
   \<and> stored_record overflowed_store ''poll'' = Some overflowed_poll
   \<and> completionPercentage overflowed_poll = Number PInf
   \<and> stored_record (updateProgress browser overflowed_store (about answered ''/quiz'' None)) ''poll''
       = Some (overflowed_poll\<lparr>completionPercentage := Null\<rparr>)"
  by code_simp

subsection \<open>Completion\<close>

lemma isCompleted_update_activity:
  "isCompleted (update_activity e verb res a) = (isCompleted a \<or> endsWith verb ''/completed'')"
  by (auto simp: update_activity_def record_result_def Let_def split: option.splits)

lemma isCompleted_JSON [simp]: "isCompleted (JSON_activity a) = isCompleted a"
  by (simp add: JSON_activity_def)

lemma isCompleted_kept:
  assumes "stored_record st s = Some a" and "isCompleted a"
  shows "\<exists>a'. stored_record (updateProgress e st statement) s = Some a' \<and> isCompleted a'"
proof (cases "\<exists>verb. verb_id statement = Some verb
                \<and> (endsWith verb ''/answered'' \<or> endsWith verb ''/completed'')")
  case False
  then have "updateProgress e st statement = st"
    by (intro updateProgress_unqualified) (cases "verb_id statement", auto)
  then show ?thesis using assms by simp
next
  case True
  then obtain verb where v: "verb_id statement = Some verb"
    and q: "endsWith verb ''/answered'' \<or> endsWith verb ''/completed''" by blast
  let ?t = "extractActivitySlug statement"
  obtain d where d: "progress_text st = JsonText d" and da: "doc_record d s = Some a"
    using assms(1) by (cases "progress_text st") (auto simp: stored_record_def)
  show ?thesis
  proof (cases "storage_denied e \<or> quota_exceeded e PROGRESS_KEY")
    case True
    then have "progress_text (updateProgress e st statement) = progress_text st"
      by (auto simp: updateProgress_qualified[OF v q] safeStoreJSON_eq split: sum.splits)
    then show ?thesis using assms by (simp add: stored_record_def)
  next
    case False
    then have g: "getProgress e st = d"
      by (simp add: getProgress_def safeParseJSON_eq d)
    show ?thesis
    proof (cases "step_doc e verb (result statement) d ?t")
      case (Inl err)
      then show ?thesis using assms by (simp add: updateProgress_qualified[OF v q] g)
    next
      case (Inr d')
      have "\<exists>a'. doc_record d' s = Some a' \<and> isCompleted a'"
      proof (cases "s = ?t")
        case True
        have "reaches_record e d ?t" using da True by (cases d) auto
        from step_doc_reaches[OF this, of verb "result statement"] Inr da True assms(2)
        show ?thesis by (auto simp: isCompleted_update_activity)
      next
        case False
        then show ?thesis using step_doc_frame[OF Inr, of s] da assms(2) by simp
      qed
      then show ?thesis
        using False
        by (auto simp: updateProgress_qualified[OF v q] g Inr stored_record_def safeStoreJSON_eq
            doc_record_JSON)
    qed
  qed
qed

lemma isCompleted_kept_updates:
  assumes "stored_record st s = Some a" and "isCompleted a"
  shows "\<exists>a'. stored_record (updates st later) s = Some a' \<and> isCompleted a'"
  using assms
proof (induction later arbitrary: st a)
  case Nil
  then show ?case by simp
next
  case (Cons c later)
  obtain e statement where c: "c = (e, statement)" by (cases c)
  from isCompleted_kept[OF Cons.prems, of e statement] obtain a' where
    "stored_record (updateProgress e st statement) s = Some a'" "isCompleted a'" by blast
  from Cons.IH[OF this] show ?case by (simp add: c)
qed

text \<open>
  Claim C1, as the code has it. Take a statement whose verb ends in \<open>/completed\<close>, in a
  call where the store is accessible, the progress key can be written, what is read under
  it is a mapping (the fallback for an absent, empty or unparsable entry included) and the
  slug has a record or names nothing the mapping inherits. Then the stored record of the
  slug has \<open>isCompleted\<close> true after the call, and still has after any further calls,
  whatever their statements and environments.
\<close>

theorem completed_sets_isCompleted:
  assumes "verb_id statement = Some verb"
    and "endsWith verb ''/completed''"
    and "persists e st (extractActivitySlug statement)"
  shows "\<exists>a. stored_record (updates (updateProgress e st statement) later)
                (extractActivitySlug statement) = Some a \<and> isCompleted a"
proof -
  let ?a = "JSON_activity (update_activity e verb (result statement)
          (previous_record e st (extractActivitySlug statement)))"
  have c: "isCompleted ?a"
    using assms(2) by (simp add: isCompleted_update_activity)
  have s: "stored_record (updateProgress e st statement) (extractActivitySlug statement) = Some ?a"
    using updateProgress_persists[OF assms(1) _ assms(3)] assms(2) by simp
  show ?thesis using s c by (rule isCompleted_kept_updates)
qed

text \<open>
  An instance for C1: a completed quiz on an empty store, followed by an answer to the same
  quiz and by a statement that arrives while the store is full.
\<close>

theorem completed_sets_isCompleted_witness:
  "persists browser empty_storage (extractActivitySlug (about completed ''/quiz'' (Some (scored 8 10))))
   \<and> (\<exists>a. stored_record
              (updates (updateProgress browser empty_storage
                          (about completed ''/quiz'' (Some (scored 8 10))))
                 [(browser, about answered ''/quiz'' None),
                  (full_store, about completed ''/poll'' None)])
              (extractActivitySlug (about completed ''/quiz'' (Some (scored 8 10)))) = Some a
          \<and> isCompleted a)"
proof -
  have h1: "verb_id (about completed ''/quiz'' (Some (scored 8 10))) = Some completed"
    by (simp add: about_def)
  have h2: "endsWith completed ''/completed''" by code_simp
  have h3: "persists browser empty_storage
              (extractActivitySlug (about completed ''/quiz'' (Some (scored 8 10))))"
    by code_simp
  show ?thesis
    using h3 completed_sets_isCompleted[OF h1 h2 h3] by blast
qed

text \<open>
  Claim C1 as first stated has no condition on the store. With a full store the write is
  swallowed by \<open>safeStoreJSON\<close>, and with the text \<open>null\<close> under the progress key the
  lookup throws and \<open>updateProgress\<close> swallows that: either way no record of the slug is
  stored, let alone one with \<open>isCompleted\<close> true.
\<close>

theorem completed_not_stored:
  "extractActivitySlug (about completed ''/quiz'' None) = ''quiz''
   \<and> endsWith completed ''/completed''
   \<and> stored_record (updateProgress full_store empty_storage (about completed ''/quiz'' None)) ''quiz''
       = None
   \<and> stored_record (updateProgress browser null_storage (about completed ''/quiz'' None)) ''quiz''
       = None"
  by code_simp

text \<open>
  The conditions above leave out the slugs that name a member every plain object inherits.
  For such a slug the test \<open>!currentProgress[slug]\<close> finds the inherited member, no record
  is created, and the mutations land on that member: the statement leaves no trace in the
  stored mapping.
\<close>

lemma inherited_slug_not_recorded:
  "extractActivitySlug (about completed ''/constructor'' None) = ''constructor''
   \<and> updateProgress browser empty_storage (about completed ''/constructor'' None) =
       \<lparr>progress_text = JsonText (Mapping []),
        summary_text = JsonText
          \<lparr>totalActivities = Number (Fin 0), completedActivities = Number (Fin 0),
           completionRate = Number (Fin 0), averageScorePercent = Number (Fin 0),
           lastUpdated = Some ''2025-01-01T10:00:00.001Z''\<rparr>\<rparr>"
  by code_simp

subsection \<open>Answers\<close>




subsection \<open>The stored percentage\<close>

lemma completionPercentage_step:
  assumes "verb_id statement = Some verb"
    and "endsWith verb ''/answered'' \<or> endsWith verb ''/completed''"
    and "persists e st (extractActivitySlug statement)"
  shows "\<exists>a. stored_record (updateProgress e st statement) (extractActivitySlug statement) = Some a
           \<and> completionPercentage a =
               (case result statement of
                  None \<Rightarrow> JSON_number (completionPercentage
                            (previous_record e st (extractActivitySlug statement)))
                | Some r \<Rightarrow> JSON_number (Number (calculateCompletionPercentage (Some r))))
           \<and> (\<forall>r sc. result statement = Some r \<and> score r = Some sc \<and> score_max sc = Some (Fin 0)
                 \<longrightarrow> completionPercentage a = Number (Fin 0))"
proof -
  let ?p = "previous_record e st (extractActivitySlug statement)"
  let ?a = "JSON_activity (update_activity e verb (result statement) ?p)"
  have s: "stored_record (updateProgress e st statement) (extractActivitySlug statement) = Some ?a"
    using updateProgress_persists[OF assms] .
  have c: "completionPercentage ?a =
             (case result statement of
                None \<Rightarrow> JSON_number (completionPercentage ?p)
              | Some r \<Rightarrow> JSON_number (Number (calculateCompletionPercentage (Some r))))"
    using assms(2)
    by (auto simp: update_activity_def record_result_def JSON_activity_def Let_def
        split: option.splits)
  have "completionPercentage ?a = Number (Fin 0)"
    if "result statement = Some r" "score r = Some sc" "score_max sc = Some (Fin 0)" for r sc
    using c that by (simp add: calculateCompletionPercentage_def)
  with s c show ?thesis by blast
qed

lemma getProgress_holds_mapping:
  assumes "holds_mapping (progress_text st)"
  shows "\<exists>m. getProgress e st = Mapping m"
  using assms
  by (cases "progress_text st" rule: holds_mapping.cases)
     (auto simp: getProgress_def safeParseJSON_eq)

lemma persists_call_works:
  assumes "call_works (e, statement)" and "holds_mapping (progress_text st)"
  shows "persists e st (extractActivitySlug statement)"
proof -
  from getProgress_holds_mapping[OF assms(2), of e] obtain m where "getProgress e st = Mapping m"
    by blast
  then show ?thesis using assms(1) by (simp add: persists_def call_works_def)
qed

lemma holds_mapping_kept:
  assumes "holds_mapping (progress_text st)"
  shows "holds_mapping (progress_text (updateProgress e st statement))"
proof (cases "qualifies statement")
  case False
  then have "updateProgress e st statement = st"
    by (intro updateProgress_unqualified) (auto simp: qualifies_def split: option.splits)
  then show ?thesis using assms by simp
next
  case True
  then obtain verb where v: "verb_id statement = Some verb"
    and q: "endsWith verb ''/answered'' \<or> endsWith verb ''/completed''"
    by (auto simp: qualifies_def split: option.splits)
  from getProgress_holds_mapping[OF assms, of e] obtain m where g: "getProgress e st = Mapping m"
    by blast
  show ?thesis
    using assms
    by (auto simp: updateProgress_qualified[OF v q] g safeStoreJSON_eq step_doc_Mapping
        split: sum.splits option.splits inherited.splits)
qed

lemma percentage_step:
  assumes w: "call_works (e, statement)"
    and h: "holds_mapping (progress_text st)"
    and c: "json_clean (progress_text st)"
  shows "map_option completionPercentage (stored_record (updateProgress e st statement) s) =
     (if qualifies statement \<and> extractActivitySlug statement = s
      then (case result statement of
              Some r \<Rightarrow> Some (JSON_number (Number (calculateCompletionPercentage (Some r))))
            | None \<Rightarrow> Some (case map_option completionPercentage (stored_record st s) of
                              None \<Rightarrow> Number (Fin 0) | Some x \<Rightarrow> x))
      else map_option completionPercentage (stored_record st s))"
proof (cases "qualifies statement")
  case False
  then have "updateProgress e st statement = st"
    by (intro updateProgress_unqualified) (auto simp: qualifies_def split: option.splits)
  with False show ?thesis by simp
next
  case True
  then obtain verb where v: "verb_id statement = Some verb"
    and q: "endsWith verb ''/answered'' \<or> endsWith verb ''/completed''"
    by (auto simp: qualifies_def split: option.splits)
  show ?thesis
  proof (cases "extractActivitySlug statement = s")
    case False
    then have "stored_record (updateProgress e st statement) s = stored_record st s"
      using updateProgress_frame[OF c, of s statement e] by simp
    with False show ?thesis by simp
  next
    case s: True
    have p: "persists e st (extractActivitySlug statement)"
      using w h by (rule persists_call_works)
    have nd: "\<not> storage_denied e" using w by (simp add: call_works_def)
    have prev: "completionPercentage (previous_record e st s) =
                  (case map_option completionPercentage (stored_record st s) of
                     None \<Rightarrow> Number (Fin 0) | Some x \<Rightarrow> x)"
      using nd
      by (cases "progress_text st")
         (auto simp: previous_record_def getProgress_def safeParseJSON_eq stored_record_def
            initial_progress_def split: option.splits)
    have clean: "JSON_number (completionPercentage (previous_record e st s)) =
                   completionPercentage (previous_record e st s)"
    proof (cases "stored_record st s")
      case None
      then show ?thesis using prev by simp
    next
      case (Some a)
      then obtain d where d: "progress_text st = JsonText d" "doc_record d s = Some a"
        by (cases "progress_text st") (auto simp: stored_record_def)
      with c have "JSON_activity a = a" using json_clean_record[of d s a] by simp
      then have "JSON_number (completionPercentage a) = completionPercentage a"
        by (metis JSON_activity_def activity_progress.select_convs(6) activity_progress.surjective
            activity_progress.update_convs(2,3,4,6))
      then show ?thesis using prev Some by simp
    qed
    have "completionPercentage (JSON_activity (update_activity e verb (result statement)
            (previous_record e st s))) =
          (case result statement of
             Some r \<Rightarrow> JSON_number (Number (calculateCompletionPercentage (Some r)))
           | None \<Rightarrow> completionPercentage (previous_record e st s))"
      using q clean
      by (auto simp: update_activity_def record_result_def JSON_activity_def Let_def
          split: option.splits)
    then show ?thesis
      using True s updateProgress_persists[OF v q p] prev
      by (auto split: option.splits)
  qed
qed

lemma percentage_is_latest_from:
  assumes "list_all call_works run"
    and "holds_mapping (progress_text st)"
    and "json_clean (progress_text st)"
  shows "map_option completionPercentage (stored_record (updates st run) s) =
           latest_percentage s (map_option completionPercentage (stored_record st s)) (map snd run)"
  using assms
proof (induction run arbitrary: st)
  case Nil
  then show ?case by simp
next
  case (Cons c run)
  obtain e statement where c: "c = (e, statement)" by (cases c)
  have w: "call_works (e, statement)" and r: "list_all call_works run"
    using Cons.prems(1) by (simp_all add: c)
  have h: "holds_mapping (progress_text (updateProgress e st statement))"
    using Cons.prems(2) by (rule holds_mapping_kept)
  have j: "json_clean (progress_text (updateProgress e st statement))"
    using Cons.prems(3) by (rule json_clean_kept)
  show ?case
    using Cons.IH[OF r h j] percentage_step[OF w Cons.prems(2,3), of s]
    by (simp add: c)
qed

lemma percentage_is_latest:
  assumes "list_all call_works run"
  shows "map_option completionPercentage (stored_record (updates empty_storage run) s) =
           latest_percentage s None (map snd run)"
  using percentage_is_latest_from[OF assms, of empty_storage s]
  by (simp add: empty_storage_def stored_record_def)




subsection \<open>The summary\<close>

lemma js_gt_length: "js_gt (js_length xs) (Fin 0) = (xs \<noteq> [])"
  by (simp add: js_length_def)

lemma averageScorePercent_summarise:
  "averageScorePercent (summarise e activities) =
     Number (if positive_percentages activities = [] then Fin 0
             else rounded_mean (positive_percentages activities))"
  by (simp add: summarise_def Let_def js_gt_length positive_percentages_def rounded_mean_def
      foldl_map js_length_def)

lemma summarise_two:
  assumes "isCompleted a" "completionPercentage a = Number (Fin 80)" "\<not> isCompleted b"
    and "activities = [a, b] \<or> activities = [b, a]"
  shows "summarise e activities =
     \<lparr>totalActivities = Number (Fin 2), completedActivities = Number (Fin 1),
      completionRate = Number (Fin 50), averageScorePercent = Number (Fin 80),
      lastUpdated = Some (date_summary e)\<rparr>"
  using assms
  by (auto simp: summarise_def Let_def js_length_def rate_1_2 mean_80
      simp del: js_div.simps js_mul.simps js_add.simps)

lemma summary_text_updateProgressSummary:
  assumes "\<not> storage_denied e" "\<not> quota_exceeded e PROGRESS_SUMMARY_KEY"
  shows "summary_text (updateProgressSummary e st (Mapping m)) =
           JsonText (JSON_summary (summarise e (map snd m)))"
  using assms by (simp add: updateProgressSummary_def safeStoreJSON_eq)

text \<open>
  Claim C3, as the code has it. For a mapping of two activities, one completed with
  percentage 80 and one not completed, the summary that \<open>updateProgressSummary\<close> stores has
  2 activities, 1 completed, rate 50 and average 80. In general the average is the rounded
  mean of the percentages of the completed activities whose percentage is greater than
  zero, and 0 when there is none. And a qualifying update that reaches the store writes the
  summary of the very mapping it writes.
\<close>

theorem summary_recomputed_from_mapping:
  "(isCompleted a \<and> completionPercentage a = Number (Fin 80) \<and> \<not> isCompleted b
      \<and> (m = [(k, a), (k', b)] \<or> m = [(k, b), (k', a)])
      \<and> \<not> storage_denied e \<and> \<not> quota_exceeded e PROGRESS_SUMMARY_KEY
    \<longrightarrow> (\<exists>sm. summary_text (updateProgressSummary e st (Mapping m)) = JsonText sm
           \<and> totalActivities sm = Number (Fin 2) \<and> completedActivities sm = Number (Fin 1)
           \<and> completionRate sm = Number (Fin 50) \<and> averageScorePercent sm = Number (Fin 80)))
   \<and> averageScorePercent (summarise e activities) =
        Number (if positive_percentages activities = [] then Fin 0
                else rounded_mean (positive_percentages activities))
   \<and> (verb_id statement = Some verb
        \<and> (endsWith verb ''/answered'' \<or> endsWith verb ''/completed'')
        \<and> persists e st (extractActivitySlug statement)
        \<and> \<not> quota_exceeded e PROGRESS_SUMMARY_KEY
      \<longrightarrow> (\<exists>m'. progress_text (updateProgress e st statement) = JsonText (JSON_progress (Mapping m'))
             \<and> summary_text (updateProgress e st statement)
                 = JsonText (JSON_summary (summarise e (map snd m')))))"
proof (intro conjI impI)
  assume h: "isCompleted a \<and> completionPercentage a = Number (Fin 80) \<and> \<not> isCompleted b
      \<and> (m = [(k, a), (k', b)] \<or> m = [(k, b), (k', a)])
      \<and> \<not> storage_denied e \<and> \<not> quota_exceeded e PROGRESS_SUMMARY_KEY"
  then have "map snd m = [a, b] \<or> map snd m = [b, a]" by auto
  with h have "summarise e (map snd m) =
     \<lparr>totalActivities = Number (Fin 2), completedActivities = Number (Fin 1),
      completionRate = Number (Fin 50), averageScorePercent = Number (Fin 80),
      lastUpdated = Some (date_summary e)\<rparr>"
    by (intro summarise_two) auto
  with h show "\<exists>sm. summary_text (updateProgressSummary e st (Mapping m)) = JsonText sm
           \<and> totalActivities sm = Number (Fin 2) \<and> completedActivities sm = Number (Fin 1)
           \<and> completionRate sm = Number (Fin 50) \<and> averageScorePercent sm = Number (Fin 80)"
    by (simp add: summary_text_updateProgressSummary JSON_summary_def)
next
  show "averageScorePercent (summarise e activities) =
        Number (if positive_percentages activities = [] then Fin 0
                else rounded_mean (positive_percentages activities))"
    by (rule averageScorePercent_summarise)
next
  assume h: "verb_id statement = Some verb
        \<and> (endsWith verb ''/answered'' \<or> endsWith verb ''/completed'')
        \<and> persists e st (extractActivitySlug statement)
        \<and> \<not> quota_exceeded e PROGRESS_SUMMARY_KEY"
  then have v: "verb_id statement = Some verb"
    and q: "endsWith verb ''/answered'' \<or> endsWith verb ''/completed''"
    and w: "\<not> storage_denied e" "\<not> quota_exceeded e PROGRESS_KEY"
           "\<not> quota_exceeded e PROGRESS_SUMMARY_KEY"
    and r: "reaches_record e (getProgress e st) (extractActivitySlug statement)"
    by (simp_all add: persists_def)
  from step_doc_reaches_Mapping[OF r, of verb "result statement"] obtain m' where
    "step_doc e verb (result statement) (getProgress e st) (extractActivitySlug statement)
       = Inr (Mapping m')" by blast
  then have "progress_text (updateProgress e st statement) = JsonText (JSON_progress (Mapping m'))
             \<and> summary_text (updateProgress e st statement)
                 = JsonText (JSON_summary (summarise e (map snd m')))"
    using w
    by (simp add: updateProgress_qualified[OF v q] safeStoreJSON_eq updateProgressSummary_def)
  then show "\<exists>m'. progress_text (updateProgress e st statement) = JsonText (JSON_progress (Mapping m'))
             \<and> summary_text (updateProgress e st statement)
                 = JsonText (JSON_summary (summarise e (map snd m')))" by blast
qed

text \<open>Instances for C3.\<close>

theorem summary_recomputed_from_mapping_witness:
  "(\<exists>sm. summary_text (updateProgressSummary browser empty_storage
             (Mapping [(''quiz'', passed_quiz), (''poll'', initial_progress browser ''poll'')])) = JsonText sm
        \<and> totalActivities sm = Number (Fin 2) \<and> completedActivities sm = Number (Fin 1)
        \<and> completionRate sm = Number (Fin 50) \<and> averageScorePercent sm = Number (Fin 80))
   \<and> averageScorePercent (summarise browser [passed_quiz, lost_quiz]) = Number (Fin 80)
   \<and> (\<exists>m'. progress_text (updateProgress browser one_quiz (about answered ''/poll'' None))
               = JsonText (JSON_progress (Mapping m'))
          \<and> summary_text (updateProgress browser one_quiz (about answered ''/poll'' None))
               = JsonText (JSON_summary (summarise browser (map snd m'))))"
proof -
  note t1 = summary_recomputed_from_mapping[where a = passed_quiz
      and b = "initial_progress browser ''poll''"
      and m = "[(''quiz'', passed_quiz), (''poll'', initial_progress browser ''poll'')]"
      and k = "''quiz''" and k' = "''poll''" and e = browser and st = empty_storage
      and activities = "[passed_quiz, lost_quiz]"]
  note t2 = summary_recomputed_from_mapping[where e = browser and st = one_quiz
      and statement = "about answered ''/poll'' None" and verb = answered]
  have h1: "isCompleted passed_quiz \<and> completionPercentage passed_quiz = Number (Fin 80)
            \<and> \<not> isCompleted (initial_progress browser ''poll'')"
    by (simp add: passed_quiz_def initial_progress_def)
  have h2: "\<not> storage_denied browser \<and> \<not> quota_exceeded browser PROGRESS_SUMMARY_KEY"
    by (simp add: browser_def)
  have h3: "verb_id (about answered ''/poll'' None) = Some answered" by (simp add: about_def)
  have h4: "endsWith answered ''/answered''" by code_simp
  have h5: "persists browser one_quiz (extractActivitySlug (about answered ''/poll'' None))"
    by code_simp
  have h6: "positive_percentages [passed_quiz, lost_quiz] = [Fin 80]" by code_simp
  have h7: "rounded_mean [Fin 80] = Fin 80" by code_simp
  show ?thesis
    using t1 t2 h1 h2 h3 h4 h5 by (simp add: h6 h7)
qed

text \<open>
  Claim C3 as first stated averages over the completed activities with a nonzero
  percentage. A completed activity scored \<open>-5\<close> out of 10 has percentage \<open>-50\<close>; the code
  leaves it out and stores the average 0, where the rounded mean over the nonzero
  percentages is \<open>-50\<close>.
\<close>

theorem average_skips_negative_percentage:
  "updateProgress browser empty_storage (about completed ''/quiz'' (Some (scored (- 5) 10))) =
     \<lparr>progress_text = JsonText (Mapping [(''quiz'', lost_quiz)]),
      summary_text = JsonText
        \<lparr>totalActivities = Number (Fin 1), completedActivities = Number (Fin 1),
         completionRate = Number (Fin 100), averageScorePercent = Number (Fin 0),
         lastUpdated = Some ''2025-01-01T10:00:00.001Z''\<rparr>\<rparr>
   \<and> rounded_mean (nonzero_percentages [lost_quiz]) = Fin (- 50)"
  by code_simp

end
